theory Spec2Isabelle
  imports Complex_Main "HOL-Library.Log_Nat" "HOL-Library.Product_Lexorder"
begin

section \<open>Data model\<close>

text \<open>
  The Python module \<^verbatim>\<open>railway_data_structure.py\<close> (and its copy
  \<^verbatim>\<open>Subway_data_structure.py\<close>, the same code with translated comments) builds a graph of
  mutable station objects that point at each other. Objects are shared: a station is
  referenced from the network's dictionary, from track lists and from the edge fields of
  other stations, and it is mutated in place. The model therefore keeps an explicit object
  store \<open>heap\<close>; a reference to a station object is its address in the store, object identity
  is equality of addresses, construction of an object appends it to the store and an
  attribute assignment replaces the object at its address.

  Python dictionaries iterate in insertion order and several functions of the module depend
  on it, so a dictionary is an association list with distinct keys: assigning to a present
  key replaces the value at its position, assigning to an absent key appends.
\<close>

datatype StationType = REGULAR | JUNCTION | TERMINAL | EXPRESS | TRANSFER

datatype TrackType = MAIN | BRANCH | EXPRESS_TRACK | LOOP

datatype error = ValueError | IndexError | OverflowError

type_synonym addr = nat

record 'a SubwayStation =
  station_id :: string
  data :: 'a
  station_type :: StationType
  next_stations :: "(TrackType \<times> addr) list"
  prev_stations :: "(TrackType \<times> addr) list"
  branch_connections :: "addr list"
  express_skip_to :: "addr option"
  transfer_destinations :: "(addr \<times> int) list"
  line_colors :: "string set"

record SubwayTrack =
  track_id :: string
  track_type :: TrackType
  color :: string
  track_stations :: "addr list"
  express_stops :: "string set"

record 'a SubwayNetwork =
  heap :: "'a SubwayStation list"
  stations :: "(string \<times> addr) list"
  tracks :: "(string \<times> SubwayTrack) list"
  total_data_items :: int

text \<open>
  The fields \<^verbatim>\<open>passenger_capacity\<close>, \<^verbatim>\<open>access_frequency\<close>, \<^verbatim>\<open>is_active\<close>,
  \<^verbatim>\<open>last_accessed\<close>, \<^verbatim>\<open>access_pattern\<close> of a station, \<^verbatim>\<open>is_bidirectional\<close> and
  \<^verbatim>\<open>capacity\<close> of a track, and \<^verbatim>\<open>junctions\<close>, \<^verbatim>\<open>network_map\<close>,
  \<^verbatim>\<open>average_path_length\<close>, \<^verbatim>\<open>cache_efficiency\<close> of the network are set by the
  constructors and never read or written again; they are left out. The field
  \<^verbatim>\<open>stations\<close> of a track is \<open>track_stations\<close> here, since the network has a field of the
  same name.
\<close>

definition SubwayStation_init :: "string \<Rightarrow> 'a \<Rightarrow> StationType \<Rightarrow> 'a SubwayStation" where
  "SubwayStation_init sid d ty =
     \<lparr>station_id = sid, data = d, station_type = ty, next_stations = [], prev_stations = [],
      branch_connections = [], express_skip_to = None, transfer_destinations = [],
      line_colors = {}\<rparr>"

definition SubwayTrack_init :: "string \<Rightarrow> TrackType \<Rightarrow> string \<Rightarrow> SubwayTrack" where
  "SubwayTrack_init tid ty c =
     \<lparr>track_id = tid, track_type = ty, color = c, track_stations = [], express_stops = {}\<rparr>"

definition SubwayNetwork_init :: "'a SubwayNetwork" where
  "SubwayNetwork_init = \<lparr>heap = [], stations = [], tracks = [], total_data_items = 0\<rparr>"

subsection \<open>Dictionaries, the object store, string formatting\<close>

fun dict_set :: "'k \<Rightarrow> 'v \<Rightarrow> ('k \<times> 'v) list \<Rightarrow> ('k \<times> 'v) list" where
  "dict_set k v [] = [(k, v)]"
| "dict_set k v ((k', v') # kvs) =
     (if k = k' then (k, v) # kvs else (k', v') # dict_set k v kvs)"

definition dict_get :: "('k \<times> 'v) list \<Rightarrow> 'k \<Rightarrow> 'v option" where
  "dict_get kvs k = map_of kvs k"

definition dict_values :: "('k \<times> 'v) list \<Rightarrow> 'v list" where
  "dict_values kvs = map snd kvs"

definition alloc :: "'a SubwayStation \<Rightarrow> 'a SubwayNetwork \<Rightarrow> addr \<times> 'a SubwayNetwork" where
  "alloc s net = (length (heap net), net\<lparr>heap := heap net @ [s]\<rparr>)"

definition modify ::
  "addr \<Rightarrow> ('a SubwayStation \<Rightarrow> 'a SubwayStation) \<Rightarrow> 'a SubwayNetwork \<Rightarrow> 'a SubwayNetwork" where
  "modify a f net = net\<lparr>heap := (heap net)[a := f (heap net ! a)]\<rparr>"

definition digit :: "nat \<Rightarrow> char" where
  "digit d = ''0123456789'' ! d"

fun str_nat :: "nat \<Rightarrow> string" where
  "str_nat n = (if n < 10 then [digit n] else str_nat (n div 10) @ [digit (n mod 10)])"

declare str_nat.simps [simp del]

section \<open>Construction operations\<close>

subsection \<open>\<^verbatim>\<open>create_main_line\<close>\<close>

text \<open>
  One iteration of the \<^verbatim>\<open>for i, data in enumerate(stations_data)\<close> loop; \<open>n\<close> is
  \<^verbatim>\<open>len(stations_data)\<close>. The loop state is the network, the track under construction and
  \<^verbatim>\<open>prev_station\<close>.
\<close>

definition main_line_step ::
  "string \<Rightarrow> string \<Rightarrow> nat \<Rightarrow> nat \<Rightarrow> 'a \<Rightarrow>
   'a SubwayNetwork \<times> SubwayTrack \<times> addr option \<Rightarrow> 'a SubwayNetwork \<times> SubwayTrack \<times> addr option" where
  "main_line_step line_id col n i d st =
     (case st of (net, track, prev_station) \<Rightarrow>
        let sid = line_id @ ''_station_'' @ str_nat i;
            ty = (if i = 0 \<or> int i = int n - 1 then TERMINAL else REGULAR);
            (station, net1) = alloc (SubwayStation_init sid d ty) net;
            net2 = modify station (\<lambda>s. s\<lparr>line_colors := insert col (line_colors s)\<rparr>) net1;
            net3 = (case prev_station of
                      None \<Rightarrow> net2
                    | Some p \<Rightarrow>
                        modify p (\<lambda>s. s\<lparr>next_stations := dict_set MAIN station (next_stations s)\<rparr>)
                          (modify station
                             (\<lambda>s. s\<lparr>prev_stations := dict_set MAIN p (prev_stations s)\<rparr>) net2));
            net4 = net3\<lparr>stations := dict_set sid station (stations net3)\<rparr>;
            track' = track\<lparr>track_stations := track_stations track @ [station]\<rparr>
        in (net4, track', Some station))"

fun main_line_loop ::
  "string \<Rightarrow> string \<Rightarrow> nat \<Rightarrow> nat \<Rightarrow> 'a list \<Rightarrow>
   'a SubwayNetwork \<times> SubwayTrack \<times> addr option \<Rightarrow> 'a SubwayNetwork \<times> SubwayTrack \<times> addr option" where
  "main_line_loop line_id col n i [] st = st"
| "main_line_loop line_id col n i (d # ds) st =
     main_line_loop line_id col n (i + 1) ds (main_line_step line_id col n i d st)"

definition create_main_line ::
  "string \<Rightarrow> 'a list \<Rightarrow> string \<Rightarrow> 'a SubwayNetwork \<Rightarrow> (error + SubwayTrack) \<times> 'a SubwayNetwork" where
  "create_main_line line_id stations_data col net =
     (case main_line_loop line_id col (length stations_data) 0 stations_data
             (net, SubwayTrack_init line_id MAIN col, None) of
        (net1, track, _) \<Rightarrow>
          (Inr track,
           net1\<lparr>tracks := dict_set line_id track (tracks net1),
                total_data_items := total_data_items net1 + int (length stations_data)\<rparr>))"

subsection \<open>\<^verbatim>\<open>create_branch_line\<close>\<close>

text \<open>
  One iteration of the loop over \<^verbatim>\<open>enumerate(branch_data)\<close>. Here \<^verbatim>\<open>prev_station\<close> is
  never \<^verbatim>\<open>None\<close>: it starts as the junction station.
\<close>

definition branch_line_step ::
  "string \<Rightarrow> string \<Rightarrow> nat \<Rightarrow> addr \<Rightarrow> nat \<Rightarrow> 'a \<Rightarrow>
   'a SubwayNetwork \<times> SubwayTrack \<times> addr \<Rightarrow> 'a SubwayNetwork \<times> SubwayTrack \<times> addr" where
  "branch_line_step branch_id col n junction_station i d st =
     (case st of (net, track, prev_station) \<Rightarrow>
        let sid = branch_id @ ''_station_'' @ str_nat i;
            ty = (if int i = int n - 1 then TERMINAL else REGULAR);
            (station, net1) = alloc (SubwayStation_init sid d ty) net;
            net2 = modify station (\<lambda>s. s\<lparr>line_colors := insert col (line_colors s)\<rparr>) net1;
            net3 = modify station
                     (\<lambda>s. s\<lparr>prev_stations := dict_set BRANCH prev_station (prev_stations s)\<rparr>) net2;
            net4 = modify prev_station
                     (\<lambda>s. s\<lparr>next_stations := dict_set BRANCH station (next_stations s)\<rparr>) net3;
            net5 = (if i = 0
                    then modify junction_station
                           (\<lambda>s. s\<lparr>branch_connections := branch_connections s @ [station]\<rparr>) net4
                    else net4);
            net6 = net5\<lparr>stations := dict_set sid station (stations net5)\<rparr>;
            track' = track\<lparr>track_stations := track_stations track @ [station]\<rparr>
        in (net6, track', station))"

fun branch_line_loop ::
  "string \<Rightarrow> string \<Rightarrow> nat \<Rightarrow> addr \<Rightarrow> nat \<Rightarrow> 'a list \<Rightarrow>
   'a SubwayNetwork \<times> SubwayTrack \<times> addr \<Rightarrow> 'a SubwayNetwork \<times> SubwayTrack \<times> addr" where
  "branch_line_loop branch_id col n j i [] st = st"
| "branch_line_loop branch_id col n j i (d # ds) st =
     branch_line_loop branch_id col n j (i + 1) ds (branch_line_step branch_id col n j i d st)"

definition create_branch_line ::
  "string \<Rightarrow> string \<Rightarrow> 'a list \<Rightarrow> string \<Rightarrow> 'a SubwayNetwork \<Rightarrow>
   (error + SubwayTrack) \<times> 'a SubwayNetwork" where
  "create_branch_line branch_id junction_station_id branch_data col net =
     (case dict_get (stations net) junction_station_id of
        None \<Rightarrow> (Inl ValueError, net)
      | Some junction_station \<Rightarrow>
          let net0 = modify junction_station (\<lambda>s. s\<lparr>station_type := JUNCTION\<rparr>) net
          in (case branch_line_loop branch_id col (length branch_data) junction_station 0
                     branch_data (net0, SubwayTrack_init branch_id BRANCH col, junction_station) of
                (net1, track, _) \<Rightarrow>
                  (Inr track,
                   net1\<lparr>tracks := dict_set branch_id track (tracks net1),
                        total_data_items := total_data_items net1 + int (length branch_data)\<rparr>)))"

subsection \<open>\<^verbatim>\<open>create_express_line\<close>\<close>

text \<open>
  Python list indexing \<^verbatim>\<open>xs[i]\<close>: a negative index counts from the end, and an index
  outside \<open>-len \<le> i < len\<close> raises \<^verbatim>\<open>IndexError\<close>.
\<close>

definition list_getitem :: "'x list \<Rightarrow> int \<Rightarrow> error + 'x" where
  "list_getitem xs i =
     (if 0 \<le> i \<and> i < int (length xs) then Inr (xs ! nat i)
      else if i < 0 \<and> - int (length xs) \<le> i then Inr (xs ! nat (int (length xs) + i))
      else Inl IndexError)"

text \<open>
  The body of the loop over \<^verbatim>\<open>express_stations\<close> for a station that was selected.
\<close>

definition express_line_step ::
  "string \<Rightarrow> addr \<Rightarrow> 'a SubwayNetwork \<times> SubwayTrack \<times> addr option \<Rightarrow>
   'a SubwayNetwork \<times> SubwayTrack \<times> addr option" where
  "express_line_step col station st =
     (case st of (net, express_track, prev_express_station) \<Rightarrow>
        let net1 = modify station (\<lambda>s. s\<lparr>station_type := EXPRESS\<rparr>) net;
            net2 = modify station (\<lambda>s. s\<lparr>line_colors := insert col (line_colors s)\<rparr>) net1;
            net3 = (case prev_express_station of
                      None \<Rightarrow> net2
                    | Some p \<Rightarrow>
                        modify p (\<lambda>s. s\<lparr>express_skip_to := Some station\<rparr>)
                          (modify p
                             (\<lambda>s. s\<lparr>next_stations :=
                                       dict_set EXPRESS_TRACK station (next_stations s)\<rparr>)
                             (modify station
                                (\<lambda>s. s\<lparr>prev_stations :=
                                          dict_set EXPRESS_TRACK p (prev_stations s)\<rparr>) net2)));
            express_track' = express_track
              \<lparr>track_stations := track_stations express_track @ [station],
               express_stops := insert (station_id (heap net3 ! station))
                                  (express_stops express_track)\<rparr>
        in (net3, express_track', Some station))"

text \<open>
  The loop stops with the exception when an index is below \<open>-len\<close>; the stations changed
  by the iterations before it stay changed. An index at or above \<open>len\<close> is skipped.
\<close>

fun express_line_loop ::
  "SubwayTrack \<Rightarrow> string \<Rightarrow> int list \<Rightarrow> 'a SubwayNetwork \<times> SubwayTrack \<times> addr option \<Rightarrow>
   (error + SubwayTrack) \<times> 'a SubwayNetwork" where
  "express_line_loop main_track col [] st = (case st of (net, express_track, _) \<Rightarrow> (Inr express_track, net))"
| "express_line_loop main_track col (station_index # rest) st =
     (if station_index \<ge> int (length (track_stations main_track))
      then express_line_loop main_track col rest st
      else (case list_getitem (track_stations main_track) station_index of
              Inl e \<Rightarrow> (Inl e, fst st)
            | Inr station \<Rightarrow>
                express_line_loop main_track col rest (express_line_step col station st)))"

definition create_express_line ::
  "string \<Rightarrow> string \<Rightarrow> int list \<Rightarrow> string \<Rightarrow> 'a SubwayNetwork \<Rightarrow>
   (error + SubwayTrack) \<times> 'a SubwayNetwork" where
  "create_express_line express_id main_line_id express_stations col net =
     (case dict_get (tracks net) main_line_id of
        None \<Rightarrow> (Inl ValueError, net)
      | Some main_track \<Rightarrow>
          (case express_line_loop main_track col express_stations
                  (net, SubwayTrack_init express_id EXPRESS_TRACK col, None) of
             (Inl e, net1) \<Rightarrow> (Inl e, net1)
           | (Inr express_track, net1) \<Rightarrow>
               (Inr express_track,
                net1\<lparr>tracks := dict_set express_id express_track (tracks net1)\<rparr>)))"

subsection \<open>\<^verbatim>\<open>create_loop_connection\<close> and \<^verbatim>\<open>add_transfer_connection\<close>\<close>

definition create_loop_connection ::
  "string \<Rightarrow> string \<Rightarrow> string \<Rightarrow> 'a SubwayNetwork \<Rightarrow> (error + SubwayTrack) \<times> 'a SubwayNetwork" where
  "create_loop_connection start_station_id end_station_id col net =
     (case (dict_get (stations net) start_station_id, dict_get (stations net) end_station_id) of
        (Some start_station, Some end_station) \<Rightarrow>
          let loop_id = ''loop_'' @ start_station_id @ ''_'' @ end_station_id;
              net1 = modify start_station
                       (\<lambda>s. s\<lparr>next_stations := dict_set LOOP end_station (next_stations s)\<rparr>) net;
              net2 = modify end_station
                       (\<lambda>s. s\<lparr>prev_stations := dict_set LOOP start_station (prev_stations s)\<rparr>) net1;
              net3 = modify start_station (\<lambda>s. s\<lparr>line_colors := insert col (line_colors s)\<rparr>) net2;
              net4 = modify end_station (\<lambda>s. s\<lparr>line_colors := insert col (line_colors s)\<rparr>) net3;
              loop_track = (SubwayTrack_init loop_id LOOP col)
                             \<lparr>track_stations := [start_station, end_station]\<rparr>
          in (Inr loop_track, net4\<lparr>tracks := dict_set loop_id loop_track (tracks net4)\<rparr>)
      | _ \<Rightarrow> (Inl ValueError, net))"

definition add_transfer_connection ::
  "string \<Rightarrow> string \<Rightarrow> int \<Rightarrow> 'a SubwayNetwork \<Rightarrow> (error + unit) \<times> 'a SubwayNetwork" where
  "add_transfer_connection station1_id station2_id transfer_cost net =
     (case (dict_get (stations net) station1_id, dict_get (stations net) station2_id) of
        (Some station1, Some station2) \<Rightarrow>
          let net1 = modify station1
                       (\<lambda>s. s\<lparr>transfer_destinations :=
                                 transfer_destinations s @ [(station2, transfer_cost)]\<rparr>) net;
              net2 = modify station2
                       (\<lambda>s. s\<lparr>transfer_destinations :=
                                 transfer_destinations s @ [(station1, transfer_cost)]\<rparr>) net1;
              net3 = modify station1 (\<lambda>s. s\<lparr>station_type := TRANSFER\<rparr>) net2;
              net4 = modify station2 (\<lambda>s. s\<lparr>station_type := TRANSFER\<rparr>) net3
          in (Inr (), net4)
      | _ \<Rightarrow> (Inr (), net))"

section \<open>Python numbers\<close>

text \<open>
  The cost of a frontier entry of \<^verbatim>\<open>find_optimal_route\<close> is a Python number: the int
  \<^verbatim>\<open>0\<close> at the start, an int as long as only the ints \<^verbatim>\<open>1\<close>, \<^verbatim>\<open>2\<close> and the transfer
  costs have been added to it, and a float from the first addition of \<^verbatim>\<open>0.5\<close> or
  \<^verbatim>\<open>0.3\<close> on. Python ints are unbounded and their sum is exact. A float is an IEEE 754
  binary64 number: a finite float is modelled by its value, a rational number, and the two
  infinities are values of their own. (The two zeros are equal and add alike, so they are not
  told apart. No nan arises: the second operand of every addition of the search is finite.)

  \<open>round_nearest_even x\<close> is the binary64 number nearest to \<open>x\<close>, ties going to the even
  significand, without a bound on the exponent: with \<open>e = floor_log2 \<bar>x\<bar>\<close>, the numbers
  of the format between \<open>2 ^ e\<close> and \<open>2 ^ (e + 1)\<close> are the multiples of \<open>2 ^ (e - 52)\<close>, and
  below \<open>2 ^ (- 1022)\<close> (the subnormal numbers) they are the multiples of \<open>2 ^ (- 1074)\<close>.
  \<open>threshold\<close> is the least magnitude that rounds to \<open>2 ^ 1024\<close>, which the format does not
  have: \<open>2 ^ 1024 - 2 ^ 970\<close>, half way between the largest finite float and \<open>2 ^ 1024\<close>.
\<close>

datatype pyfloat = Finite rat | PosInf | NegInf

datatype pynum = PyInt int | PyFloat pyfloat

definition round_half_even :: "rat \<Rightarrow> int" where
  "round_half_even y =
     (let n = \<lfloor>y\<rfloor>; r = y - of_int n
      in if r < 1 / 2 then n else if 1 / 2 < r then n + 1 else if even n then n else n + 1)"

text \<open>
  For \<open>0 < x\<close>, \<open>floor_log2 x\<close> is the integer \<open>e\<close> with \<open>2 ^ e \<le> x < 2 ^ (e + 1)\<close>;
  \<open>bitlen n\<close> is the number of binary digits of \<open>n\<close> (Python's \<^verbatim>\<open>n.bit_length()\<close>).
\<close>

definition floor_log2 :: "rat \<Rightarrow> int" where
  "floor_log2 x = (if 1 \<le> x then bitlen \<lfloor>x\<rfloor> - 1 else - bitlen (\<lceil>1 / x\<rceil> - 1))"

definition round_nearest_even :: "rat \<Rightarrow> rat" where
  "round_nearest_even x =
     (if x = 0 then 0
      else let q = max (floor_log2 \<bar>x\<bar> - 52) (- 1074)
           in sgn x * of_int (round_half_even (\<bar>x\<bar> / power_int 2 q)) * power_int 2 q)"

definition threshold :: rat where
  "threshold = 2 ^ 1024 - 2 ^ 970"

definition round_to_double :: "rat \<Rightarrow> pyfloat" where
  "round_to_double x =
     (if x \<le> - threshold then NegInf else if threshold \<le> x then PosInf
      else Finite (round_nearest_even x))"

text \<open>
  The conversion \<^verbatim>\<open>float(k)\<close> of an int, which Python applies to the int operand of a mixed
  addition: it rounds like every other operation and raises \<^verbatim>\<open>OverflowError\<close> (``int too
  large to convert to float'') when the result is not finite. Its result is the value of a
  finite float.
\<close>

definition int_to_float :: "int \<Rightarrow> error + rat" where
  "int_to_float k =
     (case round_to_double (of_int k) of Finite x \<Rightarrow> Inr x | _ \<Rightarrow> Inl OverflowError)"

text \<open>
  The sum of a float and a finite float \<open>y\<close>: the exact sum, rounded. An overflow of a float
  addition gives an infinity and raises nothing.
\<close>

fun float_add :: "pyfloat \<Rightarrow> rat \<Rightarrow> pyfloat" where
  "float_add (Finite x) y = round_to_double (x + y)"
| "float_add PosInf y = PosInf"
| "float_add NegInf y = NegInf"

text \<open>The float literals \<^verbatim>\<open>0.5\<close> and \<^verbatim>\<open>0.3\<close>: the binary64 numbers nearest to them.\<close>

definition float_0_5 :: rat where
  "float_0_5 = 1 / 2"

definition float_0_3 :: rat where
  "float_0_3 = 5404319552844595 / 18014398509481984"

text \<open>
  \<^verbatim>\<open>cost + k\<close> for an int \<open>k\<close>, and \<^verbatim>\<open>cost + y\<close> for a finite float \<open>y\<close>.
\<close>

definition py_add_int :: "pynum \<Rightarrow> int \<Rightarrow> error + pynum" where
  "py_add_int cost k =
     (case cost of
        PyInt c \<Rightarrow> Inr (PyInt (c + k))
      | PyFloat x \<Rightarrow>
          (case int_to_float k of
             Inl e \<Rightarrow> Inl e
           | Inr y \<Rightarrow> Inr (PyFloat (float_add x y))))"

definition py_add_float :: "pynum \<Rightarrow> rat \<Rightarrow> error + pynum" where
  "py_add_float cost y =
     (case cost of
        PyInt c \<Rightarrow>
          (case int_to_float c of
             Inl e \<Rightarrow> Inl e
           | Inr x \<Rightarrow> Inr (PyFloat (float_add (Finite x) y)))
      | PyFloat x \<Rightarrow> Inr (PyFloat (float_add x y)))"

text \<open>
  Python compares an int with a float by value, exactly, and every finite number lies between
  the two infinities. \<open>cost_key\<close> maps a number into the lexicographic order of pairs so
  that \<open>cost_key a < cost_key b\<close> is \<^verbatim>\<open>a < b\<close>.
\<close>

fun cost_key :: "pynum \<Rightarrow> int \<times> rat" where
  "cost_key (PyInt k) = (0, of_int k)"
| "cost_key (PyFloat (Finite x)) = (0, x)"
| "cost_key (PyFloat PosInf) = (1, 0)"
| "cost_key (PyFloat NegInf) = (- 1, 0)"

section \<open>Routing\<close>

text \<open>
  A payload is any Python object, and \<^verbatim>\<open>_find_station_by_data\<close> compares payloads with
  \<^verbatim>\<open>==\<close>, which the class of the payload defines: it need not be reflexive (a nan is not
  equal to itself) nor symmetric. The functions below take the comparison as the parameter
  \<open>eq\<close>: \<open>eq x y\<close> is the truth value of \<^verbatim>\<open>x == y\<close>, the stored payload on the left as
  in the source. Station objects are instances of a plain class: they are compared by
  identity (\<^verbatim>\<open>current == end_station\<close>) and are always true in a condition.
\<close>

definition find_station_by_data ::
  "('a \<Rightarrow> 'a \<Rightarrow> bool) \<Rightarrow> 'a SubwayNetwork \<Rightarrow> 'a \<Rightarrow> addr option" where
  "find_station_by_data eq net d =
     find (\<lambda>station. eq (data (heap net ! station)) d) (dict_values (stations net))"

text \<open>
  A frontier element is the triple of a station reference, the path so far and the
  accumulated cost. \<open>append_option\<close> is one \<^verbatim>\<open>next_options.append(...)\<close>: the cost of the
  new entry is computed first, and an exception raised there leaves the function.
\<close>

type_synonym frontier_entry = "addr \<times> string list \<times> pynum"

definition append_option ::
  "'a SubwayStation list \<Rightarrow> string list \<Rightarrow> addr \<Rightarrow> error + pynum \<Rightarrow> frontier_entry list \<Rightarrow>
   error + frontier_entry list" where
  "append_option h path station new_cost opts =
     (case new_cost of
        Inl e \<Rightarrow> Inl e
      | Inr c \<Rightarrow> Inr (opts @ [(station, path @ [station_id (h ! station)], c)]))"

text \<open>
  The five blocks that fill \<^verbatim>\<open>next_options\<close>, in the order of the source; \<open>opts\<close> is the
  list built so far. In the first block \<^verbatim>\<open>cost + 1\<close> is computed for every unvisited
  target and then replaced by \<^verbatim>\<open>cost + 0.5\<close> for an express edge.
\<close>

fun next_stations_loop ::
  "'a SubwayStation list \<Rightarrow> string set \<Rightarrow> string list \<Rightarrow> pynum \<Rightarrow> (TrackType \<times> addr) list \<Rightarrow>
   frontier_entry list \<Rightarrow> error + frontier_entry list" where
  "next_stations_loop h visited path cost [] opts = Inr opts"
| "next_stations_loop h visited path cost ((tt, next_station) # rest) opts =
     (if station_id (h ! next_station) \<notin> visited
      then (case py_add_int cost 1 of
              Inl e \<Rightarrow> Inl e
            | Inr next_cost \<Rightarrow>
                (case append_option h path next_station
                        (if tt = EXPRESS_TRACK then py_add_float cost float_0_5
                         else Inr next_cost) opts of
                   Inl e \<Rightarrow> Inl e
                 | Inr opts' \<Rightarrow> next_stations_loop h visited path cost rest opts'))
      else next_stations_loop h visited path cost rest opts)"

definition express_skip_option ::
  "'a SubwayStation list \<Rightarrow> string set \<Rightarrow> string list \<Rightarrow> pynum \<Rightarrow> addr option \<Rightarrow>
   frontier_entry list \<Rightarrow> error + frontier_entry list" where
  "express_skip_option h visited path cost skip opts =
     (case skip of
        None \<Rightarrow> Inr opts
      | Some express_skip \<Rightarrow>
          if station_id (h ! express_skip) \<notin> visited
          then append_option h path express_skip (py_add_float cost float_0_3) opts
          else Inr opts)"

fun branch_connections_loop ::
  "'a SubwayStation list \<Rightarrow> string set \<Rightarrow> string list \<Rightarrow> pynum \<Rightarrow> addr list \<Rightarrow>
   frontier_entry list \<Rightarrow> error + frontier_entry list" where
  "branch_connections_loop h visited path cost [] opts = Inr opts"
| "branch_connections_loop h visited path cost (branch_station # rest) opts =
     (if station_id (h ! branch_station) \<notin> visited
      then (case append_option h path branch_station (py_add_int cost 1) opts of
              Inl e \<Rightarrow> Inl e
            | Inr opts' \<Rightarrow> branch_connections_loop h visited path cost rest opts')
      else branch_connections_loop h visited path cost rest opts)"

fun transfer_destinations_loop ::
  "'a SubwayStation list \<Rightarrow> string set \<Rightarrow> string list \<Rightarrow> pynum \<Rightarrow> (addr \<times> int) list \<Rightarrow>
   frontier_entry list \<Rightarrow> error + frontier_entry list" where
  "transfer_destinations_loop h visited path cost [] opts = Inr opts"
| "transfer_destinations_loop h visited path cost ((transfer_station, transfer_cost) # rest) opts =
     (if station_id (h ! transfer_station) \<notin> visited
      then (case append_option h path transfer_station (py_add_int cost transfer_cost) opts of
              Inl e \<Rightarrow> Inl e
            | Inr opts' \<Rightarrow> transfer_destinations_loop h visited path cost rest opts')
      else transfer_destinations_loop h visited path cost rest opts)"

definition loop_option ::
  "'a SubwayStation list \<Rightarrow> string set \<Rightarrow> string list \<Rightarrow> pynum \<Rightarrow> addr option \<Rightarrow>
   frontier_entry list \<Rightarrow> error + frontier_entry list" where
  "loop_option h visited path cost loop opts =
     (case loop of
        None \<Rightarrow> Inr opts
      | Some loop_station \<Rightarrow>
          if station_id (h ! loop_station) \<notin> visited
          then append_option h path loop_station (py_add_int cost 2) opts
          else Inr opts)"

text \<open>
  The candidates \<^verbatim>\<open>next_options\<close> of one expansion, before they are sorted, or the
  exception raised while they were computed.
\<close>

definition next_options ::
  "'a SubwayStation list \<Rightarrow> string set \<Rightarrow> addr \<Rightarrow> string list \<Rightarrow> pynum \<Rightarrow>
   error + frontier_entry list" where
  "next_options h visited current path cost =
     (case next_stations_loop h visited path cost (next_stations (h ! current)) [] of
        Inl e \<Rightarrow> Inl e
      | Inr opts1 \<Rightarrow>
     (case express_skip_option h visited path cost (express_skip_to (h ! current)) opts1 of
        Inl e \<Rightarrow> Inl e
      | Inr opts2 \<Rightarrow>
     (case branch_connections_loop h visited path cost (branch_connections (h ! current)) opts2 of
        Inl e \<Rightarrow> Inl e
      | Inr opts3 \<Rightarrow>
     (case transfer_destinations_loop h visited path cost
             (transfer_destinations (h ! current)) opts3 of
        Inl e \<Rightarrow> Inl e
      | Inr opts4 \<Rightarrow>
          loop_option h visited path cost (dict_get (next_stations (h ! current)) LOOP) opts4))))"

text \<open>
  The \<^verbatim>\<open>while queue\<close> loop. Nothing in its text bounds the number of iterations, so it is
  a partial function: \<open>None\<close> stands for a loop that never returns. Otherwise the loop ends
  in one of three ways: an exception raised by the cost arithmetic (\<open>Inl\<close>), the frontier
  exhausted (\<open>Inr None\<close>), or the end station popped; in the last case the result is the
  popped entry, of which \<^verbatim>\<open>find_optimal_route\<close> returns the path. \<^verbatim>\<open>list.sort\<close> is
  stable, as \<open>sort_key\<close> is.
\<close>

partial_function (option) route_loop ::
  "'a SubwayStation list \<Rightarrow> addr \<Rightarrow> frontier_entry list \<Rightarrow> string set \<Rightarrow>
   (error + frontier_entry option) option" where
  "route_loop h end_station queue visited =
     (case queue of
        [] \<Rightarrow> Some (Inr None)
      | entry # queue' \<Rightarrow>
          (case entry of (current, path, cost) \<Rightarrow>
             if station_id (h ! current) \<in> visited then route_loop h end_station queue' visited
             else if current = end_station then Some (Inr (Some entry))
             else (case next_options h (insert (station_id (h ! current)) visited)
                          current path cost of
                     Inl e \<Rightarrow> Some (Inl e)
                   | Inr opts \<Rightarrow>
                       route_loop h end_station
                         (queue' @ sort_key (\<lambda>x. cost_key (snd (snd x))) opts)
                         (insert (station_id (h ! current)) visited))))"

declare route_loop.simps [code]

text \<open>
  \<^verbatim>\<open>find_optimal_route\<close>: the empty path when a payload resolves to no station or the
  frontier is exhausted, the path of the entry of the end station otherwise.
\<close>

definition find_optimal_route ::
  "('a \<Rightarrow> 'a \<Rightarrow> bool) \<Rightarrow> 'a SubwayNetwork \<Rightarrow> 'a \<Rightarrow> 'a \<Rightarrow> (error + string list) option" where
  "find_optimal_route eq net start_data end_data =
     (case (find_station_by_data eq net start_data, find_station_by_data eq net end_data) of
        (Some start_station, Some end_station) \<Rightarrow>
          (case route_loop (heap net) end_station
                  [(start_station, [station_id (heap net ! start_station)], PyInt 0)] {} of
             None \<Rightarrow> None
           | Some (Inl e) \<Rightarrow> Some (Inl e)
           | Some (Inr None) \<Rightarrow> Some (Inr [])
           | Some (Inr (Some (current, path, cost))) \<Rightarrow> Some (Inr path))
      | _ \<Rightarrow> Some (Inr []))"

section \<open>Insertion policy\<close>

text \<open>
  The scan for the least loaded main or branch track; \<open>None\<close> for \<open>min_load\<close> is
  \<^verbatim>\<open>float('inf')\<close>. The target is returned with its key, since the track object is
  updated in the dictionary afterwards.
\<close>

fun min_load_loop ::
  "(string \<times> SubwayTrack) list \<Rightarrow> nat option \<Rightarrow> (string \<times> SubwayTrack) option \<Rightarrow>
   (string \<times> SubwayTrack) option" where
  "min_load_loop [] min_load target_track = target_track"
| "min_load_loop ((k, track) # rest) min_load target_track =
     (if track_type track \<in> {MAIN, BRANCH}
      then (let load = length (track_stations track)
            in if (case min_load of None \<Rightarrow> True | Some m \<Rightarrow> load < m)
               then min_load_loop rest (Some load) (Some (k, track))
               else min_load_loop rest min_load target_track)
      else min_load_loop rest min_load target_track)"

definition choose_target ::
  "'a SubwayNetwork \<Rightarrow> string option \<Rightarrow> (string \<times> SubwayTrack) option" where
  "choose_target net preferred_line =
     (case preferred_line of
        None \<Rightarrow> min_load_loop (tracks net) None None
      | Some pl \<Rightarrow>
          (case (if pl \<noteq> [] then dict_get (tracks net) pl else None) of
             Some track \<Rightarrow> Some (pl, track)
           | None \<Rightarrow> min_load_loop (tracks net) None None))"

definition insert_data_optimally ::
  "'a \<Rightarrow> string option \<Rightarrow> 'a SubwayNetwork \<Rightarrow> (error + string) \<times> 'a SubwayNetwork" where
  "insert_data_optimally d preferred_line net =
     (case choose_target net preferred_line of
        None \<Rightarrow>
          (case create_main_line ''main_0'' [d] ''blue'' net of
             (Inl e, net1) \<Rightarrow> (Inl e, net1)
           | (Inr track, net1) \<Rightarrow> (Inr (track_id track), net1))
      | Some (k, target_track) \<Rightarrow>
          let sid = track_id target_track @ ''_auto_''
                      @ str_nat (length (track_stations target_track));
              (new_station, net1) = alloc (SubwayStation_init sid d REGULAR) net;
              net2 = modify new_station
                       (\<lambda>s. s\<lparr>line_colors := insert (color target_track) (line_colors s)\<rparr>) net1;
              net3 = (if track_stations target_track \<noteq> []
                      then (let last_station = last (track_stations target_track);
                                n1 = modify last_station
                                       (\<lambda>s. s\<lparr>next_stations :=
                                                 dict_set (track_type target_track) new_station
                                                   (next_stations s)\<rparr>) net2;
                                n2 = modify new_station
                                       (\<lambda>s. s\<lparr>prev_stations :=
                                                 dict_set (track_type target_track) last_station
                                                   (prev_stations s)\<rparr>) n1;
                                n3 = (if station_type (heap n2 ! last_station) = TERMINAL
                                      then modify last_station
                                             (\<lambda>s. s\<lparr>station_type := REGULAR\<rparr>) n2
                                      else n2)
                            in modify new_station (\<lambda>s. s\<lparr>station_type := TERMINAL\<rparr>) n3)
                      else net2);
              net4 = net3\<lparr>tracks :=
                       dict_set k (target_track\<lparr>track_stations :=
                                      track_stations target_track @ [new_station]\<rparr>)
                         (tracks net3)\<rparr>;
              net5 = net4\<lparr>stations := dict_set sid new_station (stations net4)\<rparr>
          in (Inr sid, net5\<lparr>total_data_items := total_data_items net5 + 1\<rparr>))"

section \<open>Statistics\<close>

record network_statistics =
  total_stations :: nat
  total_tracks :: nat
  stat_total_data_items :: int
  junction_count :: nat
  express_stations :: nat
  transfer_hubs :: nat
  terminal_points :: nat
  track_distribution :: "(string \<times> nat) list"
  avg_connectivity :: rat

fun TrackType_value :: "TrackType \<Rightarrow> string" where
  "TrackType_value MAIN = ''main''"
| "TrackType_value BRANCH = ''branch''"
| "TrackType_value EXPRESS_TRACK = ''express''"
| "TrackType_value LOOP = ''loop''"

definition count_type :: "'a SubwayNetwork \<Rightarrow> StationType \<Rightarrow> nat" where
  "count_type net ty =
     length (filter (\<lambda>s. station_type (heap net ! s) = ty) (dict_values (stations net)))"

definition connections :: "'a SubwayStation \<Rightarrow> nat" where
  "connections s =
     length (next_stations s) + length (prev_stations s) + length (branch_connections s)
       + length (transfer_destinations s)"

definition get_network_statistics :: "'a SubwayNetwork \<Rightarrow> network_statistics" where
  "get_network_statistics net =
     \<lparr>total_stations = length (stations net),
      total_tracks = length (tracks net),
      stat_total_data_items = total_data_items net,
      junction_count = count_type net JUNCTION,
      express_stations = count_type net EXPRESS,
      transfer_hubs = count_type net TRANSFER,
      terminal_points = count_type net TERMINAL,
      track_distribution =
        fold (\<lambda>track track_types.
                dict_set (TrackType_value (track_type track))
                  ((case dict_get track_types (TrackType_value (track_type track)) of
                      None \<Rightarrow> 0 | Some c \<Rightarrow> c) + 1) track_types)
          (dict_values (tracks net)) [],
      avg_connectivity =
        (if stations net \<noteq> []
         then of_nat (sum_list (map (\<lambda>s. connections (heap net ! s)) (dict_values (stations net))))
                / of_nat (length (stations net))
         else 0)\<rparr>"

section \<open>Properties stated about the model\<close>

subsection \<open>Well-formed networks\<close>

text \<open>
  A Python reference always points at an object, a dictionary has each key once, and a
  station or track is stored under its own identifier. \<open>wf_net\<close> says so for a state of the
  model; every state the operations build from the empty network is well formed
  (\<open>wf_run\<close> below).
\<close>

definition valid_station :: "nat \<Rightarrow> 'a SubwayStation \<Rightarrow> bool" where
  "valid_station n s \<longleftrightarrow>
     distinct (map fst (next_stations s)) \<and> distinct (map fst (prev_stations s)) \<and>
     (\<forall>a \<in> snd ` set (next_stations s). a < n) \<and>
     (\<forall>a \<in> snd ` set (prev_stations s). a < n) \<and>
     (\<forall>a \<in> set (branch_connections s). a < n) \<and>
     (\<forall>a \<in> set_option (express_skip_to s). a < n) \<and>
     (\<forall>a \<in> fst ` set (transfer_destinations s). a < n)"

definition wf_net :: "'a SubwayNetwork \<Rightarrow> bool" where
  "wf_net net \<longleftrightarrow>
     (\<forall>s \<in> set (heap net). valid_station (length (heap net)) s) \<and>
     distinct (map fst (stations net)) \<and>
     (\<forall>(k, a) \<in> set (stations net). a < length (heap net) \<and> station_id (heap net ! a) = k) \<and>
     distinct (map fst (tracks net)) \<and>
     (\<forall>(k, t) \<in> set (tracks net).
         track_id t = k \<and> (\<forall>a \<in> set (track_stations t). a < length (heap net)))"

subsection \<open>Sequences of calls\<close>

text \<open>
  A call of one of the public operations, and the state it leaves behind, whether it
  returned or raised.
\<close>

datatype 'a call =
    CreateMainLine string "'a list" string
  | CreateBranchLine string string "'a list" string
  | CreateExpressLine string string "int list" string
  | CreateLoopConnection string string string
  | AddTransferConnection string string int
  | InsertDataOptimally 'a "string option"

fun apply_call :: "'a call \<Rightarrow> 'a SubwayNetwork \<Rightarrow> 'a SubwayNetwork" where
  "apply_call (CreateMainLine line_id stations_data col) net =
     snd (create_main_line line_id stations_data col net)"
| "apply_call (CreateBranchLine branch_id junction_station_id branch_data col) net =
     snd (create_branch_line branch_id junction_station_id branch_data col net)"
| "apply_call (CreateExpressLine express_id main_line_id idxs col) net =
     snd (create_express_line express_id main_line_id idxs col net)"
| "apply_call (CreateLoopConnection start_station_id end_station_id col) net =
     snd (create_loop_connection start_station_id end_station_id col net)"
| "apply_call (AddTransferConnection station1_id station2_id transfer_cost) net =
     snd (add_transfer_connection station1_id station2_id transfer_cost net)"
| "apply_call (InsertDataOptimally d preferred_line) net =
     snd (insert_data_optimally d preferred_line net)"

definition run :: "'a call list \<Rightarrow> 'a SubwayNetwork \<Rightarrow> 'a SubwayNetwork" where
  "run calls net = fold apply_call calls net"

text \<open>
  A sequence of calls \<^verbatim>\<open>insert_data_optimally(d)\<close> with no preferred line, one per payload,
  with the value each call returns.
\<close>

fun insert_all :: "'a list \<Rightarrow> 'a SubwayNetwork \<Rightarrow> (error + string) list \<times> 'a SubwayNetwork" where
  "insert_all [] net = ([], net)"
| "insert_all (d # ds) net =
     (case insert_data_optimally d None net of
        (r, net1) \<Rightarrow> (case insert_all ds net1 of (rs, net2) \<Rightarrow> (r # rs, net2)))"

subsection \<open>The graph the search walks\<close>

text \<open>
  The stations one expansion of the search can enqueue from a station: the targets of its
  next map (every kind, the loop edge included), its express shortcut, its branch
  connections and its transfer destinations. \<open>edges\<close> is the resulting directed graph on
  the object store.
\<close>

definition succs :: "'a SubwayStation \<Rightarrow> addr set" where
  "succs s =
     snd ` set (next_stations s) \<union> set_option (express_skip_to s)
       \<union> set (branch_connections s) \<union> fst ` set (transfer_destinations s)"

definition edges :: "'a SubwayStation list \<Rightarrow> (addr \<times> addr) set" where
  "edges h = {(a, b). a < length h \<and> b \<in> succs (h ! a)}"

subsection \<open>Counting the iterations of the search\<close>

text \<open>
  The same loop with a budget: \<open>route_loop_fuel n\<close> evaluates the loop condition at most
  \<open>n\<close> times and is \<open>None\<close> when that is not enough. \<open>candidates_bound s\<close> is the largest
  number of candidates one expansion of station \<open>s\<close> can enqueue, and
  \<open>iteration_bound\<close> counts the start entry and the candidates of every station object.
\<close>

fun route_loop_fuel ::
  "nat \<Rightarrow> 'a SubwayStation list \<Rightarrow> addr \<Rightarrow> frontier_entry list \<Rightarrow> string set \<Rightarrow>
   (error + frontier_entry option) option" where
  "route_loop_fuel 0 h end_station queue visited = None"
| "route_loop_fuel (Suc n) h end_station queue visited =
     (case queue of
        [] \<Rightarrow> Some (Inr None)
      | entry # queue' \<Rightarrow>
          (case entry of (current, path, cost) \<Rightarrow>
             if station_id (h ! current) \<in> visited
             then route_loop_fuel n h end_station queue' visited
             else if current = end_station then Some (Inr (Some entry))
             else (case next_options h (insert (station_id (h ! current)) visited)
                          current path cost of
                     Inl e \<Rightarrow> Some (Inl e)
                   | Inr opts \<Rightarrow>
                       route_loop_fuel n h end_station
                         (queue' @ sort_key (\<lambda>x. cost_key (snd (snd x))) opts)
                         (insert (station_id (h ! current)) visited))))"

definition candidates_bound :: "'a SubwayStation \<Rightarrow> nat" where
  "candidates_bound s =
     length (next_stations s) + (case express_skip_to s of None \<Rightarrow> 0 | Some _ \<Rightarrow> 1)
       + length (branch_connections s) + length (transfer_destinations s)
       + (case dict_get (next_stations s) LOOP of None \<Rightarrow> 0 | Some _ \<Rightarrow> 1)"

definition iteration_bound :: "'a SubwayStation list \<Rightarrow> nat" where
  "iteration_bound h = 1 + sum_list (map candidates_bound h)"

subsection \<open>Agreement of next and prev\<close>

text \<open>
  The next and prev maps of kind \<open>k\<close> agree on every pair of station objects of the store:
  if \<open>A.next[k]\<close> is \<open>B\<close> then \<open>B.prev[k]\<close> is \<open>A\<close>.
\<close>

definition link_consistent :: "'a SubwayNetwork \<Rightarrow> TrackType \<Rightarrow> bool" where
  "link_consistent net k \<longleftrightarrow>
     (\<forall>a < length (heap net). \<forall>b.
        dict_get (next_stations (heap net ! a)) k = Some b \<longrightarrow>
        dict_get (prev_stations (heap net ! b)) k = Some a)"

subsection \<open>Identifiers generated by insertion\<close>

text \<open>
  Identifiers that a call of \<^verbatim>\<open>insert_data_optimally\<close> can no longer generate: those of
  the form \<open>track_auto_n\<close> for a registered track that already has more than \<open>n\<close>
  stations, and every string that is not of that form.
\<close>

definition auto_ids :: "'a SubwayNetwork \<Rightarrow> string set" where
  "auto_ids net =
     {track_id t @ ''_auto_'' @ str_nat n | k t n.
        (k, t) \<in> set (tracks net) \<and> n < length (track_stations t)}"

definition blocked :: "'a SubwayNetwork \<Rightarrow> string set" where
  "blocked net = auto_ids net \<union> {s. \<nexists>x n. s = x @ ''_auto_'' @ str_nat n}"

subsection \<open>Example networks\<close>

text \<open>
  A main line of three stations; the same with a second, unconnected main line; and a
  sequence of calls that sends two loop connections and two express lines into one station.
\<close>

definition line3 :: "nat SubwayNetwork" where
  "line3 = snd (create_main_line ''M'' [1, 2, 3] ''blue'' SubwayNetwork_init)"

definition two_lines :: "nat SubwayNetwork" where
  "two_lines = snd (create_main_line ''N'' [4, 5] ''green'' line3)"

definition loop_calls :: "nat call list" where
  "loop_calls =
     [CreateMainLine ''M'' [1, 2, 3] ''blue'',
      CreateLoopConnection ''M_station_0'' ''M_station_2'' ''yellow'',
      CreateLoopConnection ''M_station_1'' ''M_station_2'' ''yellow'',
      CreateExpressLine ''E'' ''M'' [0, 2] ''red'',
      CreateExpressLine ''F'' ''M'' [1, 2] ''red'']"

subsection \<open>The express scenario\<close>

text \<open>
  The network of the routing scenario: from the empty network, a main line with the given
  items and then an express line over its indices \<open>0\<close> and \<open>5\<close>.
\<close>

definition express_scenario ::
  "string \<Rightarrow> string \<Rightarrow> string \<Rightarrow> string \<Rightarrow> 'a list \<Rightarrow> 'a SubwayNetwork" where
  "express_scenario line_id col express_id ecol items =
     snd (create_express_line express_id line_id [0, 5] ecol
            (snd (create_main_line line_id items col SubwayNetwork_init)))"

subsection \<open>The stations an express line selects\<close>


section \<open>Basic facts\<close>

lemmas ev = create_main_line_def main_line_step_def alloc_def modify_def SubwayNetwork_init_def
  SubwayStation_init_def SubwayTrack_init_def str_nat.simps digit_def Let_def dict_get_def
  dict_values_def create_branch_line_def branch_line_step_def create_express_line_def
  express_line_step_def list_getitem_def create_loop_connection_def add_transfer_connection_def

lemma dict_get_dict_set [simp]:
  "dict_get (dict_set k v kvs) k' = (if k' = k then Some v else dict_get kvs k')"
  by (induction kvs) (auto simp: dict_get_def)

lemma heap_modify_length [simp]: "length (heap (modify a f net)) = length (heap net)"
  by (simp add: modify_def)

lemma heap_modify_nth:
  "heap (modify a f net) ! b = (if b = a \<and> a < length (heap net) then f (heap net ! a) else heap net ! b)"
  by (cases "a < length (heap net)") (auto simp: modify_def nth_list_update list_update_beyond)

lemma modify_fields [simp]:
  "stations (modify a f net) = stations net"
  "tracks (modify a f net) = tracks net"
  "total_data_items (modify a f net) = total_data_items net"
  by (simp_all add: modify_def)

lemma alloc_fields [simp]:
  "fst (alloc s net) = length (heap net)"
  "heap (snd (alloc s net)) = heap net @ [s]"
  "stations (snd (alloc s net)) = stations net"
  "tracks (snd (alloc s net)) = tracks net"
  "total_data_items (snd (alloc s net)) = total_data_items net"
  by (simp_all add: alloc_def)

text \<open>The cases of one iteration of the search loop.\<close>

lemma route_loop_found:
  "station_id (h ! current) \<notin> visited \<Longrightarrow> current = end_station \<Longrightarrow>
   route_loop h end_station ((current, path, cost) # queue) visited
     = Some (Inr (Some (current, path, cost)))"
  by (subst route_loop.simps) simp

lemma route_loop_skip:
  "station_id (h ! current) \<in> visited \<Longrightarrow>
   route_loop h end_station ((current, path, cost) # queue) visited
     = route_loop h end_station queue visited"
  by (subst route_loop.simps) simp

lemma route_loop_expand:
  "station_id (h ! current) \<notin> visited \<Longrightarrow> current \<noteq> end_station \<Longrightarrow>
   next_options h (insert (station_id (h ! current)) visited) current path cost = Inr opts \<Longrightarrow>
   route_loop h end_station ((current, path, cost) # queue) visited
     = route_loop h end_station
         (queue @ sort_key (\<lambda>x. cost_key (snd (snd x))) opts)
         (insert (station_id (h ! current)) visited)"
  by (subst route_loop.simps) simp

lemma route_loop_raise:
  "station_id (h ! current) \<notin> visited \<Longrightarrow> current \<noteq> end_station \<Longrightarrow>
   next_options h (insert (station_id (h ! current)) visited) current path cost = Inl e \<Longrightarrow>
   route_loop h end_station ((current, path, cost) # queue) visited = Some (Inl e)"
  by (subst route_loop.simps) simp

lemma route_loop_empty: "route_loop h end_station [] visited = Some (Inr None)"
  by (subst route_loop.simps) simp

text \<open>Evaluation of the float arithmetic on numerals.\<close>

lemma bitlen_pos: "0 < x \<Longrightarrow> bitlen x = bitlen (x div 2) + 1"
  by (subst compute_bitlen) simp

lemma floor_rat_numeral_div:
  "\<lfloor>(numeral a :: rat) / numeral b\<rfloor> = numeral a div numeral b"
  using floor_divide_of_int_eq [of "numeral a" "numeral b", where ?'a = rat] by simp

lemma ceiling_rat_numeral_div:
  "\<lceil>(numeral a :: rat) / numeral b\<rceil> = - (- numeral a div numeral b)"
  using floor_divide_of_int_eq [of "- numeral a" "numeral b", where ?'a = rat]
  by (simp add: ceiling_def)

lemmas num_ev = round_to_double_def round_nearest_even_def threshold_def floor_log2_def
  round_half_even_def bitlen_pos Let_def float_0_3_def float_0_5_def int_to_float_def
  py_add_float_def py_add_int_def power_int_minus floor_rat_numeral_div ceiling_rat_numeral_div

lemma py_add_float_0:
  "py_add_float (PyInt 0) float_0_5 = Inr (PyFloat (Finite float_0_5))"
  "py_add_float (PyInt 0) float_0_3 = Inr (PyFloat (Finite float_0_3))"
  by (simp_all add: num_ev)

text \<open>
  At \<open>2 ^ 53\<close> the floats are two apart: adding \<^verbatim>\<open>0.5\<close> or \<^verbatim>\<open>0.3\<close> to the int \<open>2 ^ 53\<close>
  gives the float \<open>2 ^ 53\<close> both times, so there the express edge and the express shortcut
  cost the same.
\<close>

lemma py_add_float_2_53:
  "py_add_float (PyInt (2 ^ 53)) float_0_5 = Inr (PyFloat (Finite (2 ^ 53)))"
  "py_add_float (PyInt (2 ^ 53)) float_0_3 = Inr (PyFloat (Finite (2 ^ 53)))"
  by (simp_all add: num_ev)

lemma int_to_float_small:
  "\<bar>rat_of_int k\<bar> < threshold \<Longrightarrow> int_to_float k = Inr (round_nearest_even (of_int k))"
  by (auto simp: int_to_float_def round_to_double_def)

lemma int_to_float_large:
  "threshold \<le> \<bar>rat_of_int k\<bar> \<Longrightarrow> int_to_float k = Inl OverflowError"
  by (auto simp: int_to_float_def round_to_double_def abs_if split: if_splits)

lemma int_to_float_error: "int_to_float k = Inl e \<Longrightarrow> e = OverflowError"
  by (auto simp: int_to_float_def split: pyfloat.splits)

section \<open>\<^verbatim>\<open>create_main_line\<close>: shape of the new track\<close>

lemma main_line_step_facts:
  assumes "main_line_step lid col n i d (net, track, prev) = (net', track', prev')"
  shows "length (heap net') = Suc (length (heap net))"
    and "track_stations track' = track_stations track @ [length (heap net)]"
    and "prev' = Some (length (heap net))"
    and "total_data_items net' = total_data_items net"
    and "tracks net' = tracks net"
    and "a < length (heap net) \<Longrightarrow> data (heap net' ! a) = data (heap net ! a)"
    and "a < length (heap net) \<Longrightarrow> station_type (heap net' ! a) = station_type (heap net ! a)"
    and "data (heap net' ! length (heap net)) = d"
    and "station_type (heap net' ! length (heap net)) = (if i = 0 \<or> int i = int n - 1 then TERMINAL else REGULAR)"
  using assms
  by (auto simp: main_line_step_def SubwayStation_init_def Let_def nth_append
      heap_modify_nth split_beta split: option.splits)

lemma main_line_loop_facts:
  "main_line_loop lid col n i ds (net, track, prev) = (net', track', prev') \<Longrightarrow>
   length (heap net') = length (heap net) + length ds \<and>
   track_stations track' = track_stations track @ [length (heap net) ..< length (heap net) + length ds] \<and>
   total_data_items net' = total_data_items net \<and>
   tracks net' = tracks net \<and>
   (\<forall>a < length (heap net). data (heap net' ! a) = data (heap net ! a) \<and>
        station_type (heap net' ! a) = station_type (heap net ! a)) \<and>
   (\<forall>j < length ds. data (heap net' ! (length (heap net) + j)) = ds ! j \<and>
        station_type (heap net' ! (length (heap net) + j)) =
          (if i + j = 0 \<or> int (i + j) = int n - 1 then TERMINAL else REGULAR))"
proof (induction ds arbitrary: i net track prev)
  case Nil
  then show ?case by simp
next
  case (Cons d ds)
  obtain net1 track1 prev1 where
    st: "main_line_step lid col n i d (net, track, prev) = (net1, track1, prev1)"
    by (metis prod_cases3)
  from Cons.prems st have
    lp: "main_line_loop lid col n (i + 1) ds (net1, track1, prev1) = (net', track', prev')"
    by simp
  note f = main_line_step_facts [OF st]
  note ih = Cons.IH [OF lp]
  have len: "length (heap net') = length (heap net) + length (d # ds)"
    using ih f(1) by simp
  have tr: "track_stations track' =
      track_stations track @ [length (heap net) ..< length (heap net) + length (d # ds)]"
    using ih f(1,2) by (simp add: upt_rec)
  have old: "\<forall>a < length (heap net). data (heap net' ! a) = data (heap net ! a) \<and>
        station_type (heap net' ! a) = station_type (heap net ! a)"
    using ih f(1,6,7) by simp
  have new: "\<forall>j < length (d # ds). data (heap net' ! (length (heap net) + j)) = (d # ds) ! j \<and>
        station_type (heap net' ! (length (heap net) + j)) =
          (if i + j = 0 \<or> int (i + j) = int n - 1 then TERMINAL else REGULAR)"
  proof (intro allI impI)
    fix j assume j: "j < length (d # ds)"
    show "data (heap net' ! (length (heap net) + j)) = (d # ds) ! j \<and>
        station_type (heap net' ! (length (heap net) + j)) =
          (if i + j = 0 \<or> int (i + j) = int n - 1 then TERMINAL else REGULAR)"
    proof (cases j)
      case 0
      then show ?thesis using ih f(1,8,9) by simp
    next
      case (Suc k)
      with j have k: "k < length ds" by simp
      from ih k have "data (heap net' ! (length (heap net1) + k)) = ds ! k \<and>
        station_type (heap net' ! (length (heap net1) + k)) =
          (if i + 1 + k = 0 \<or> int (i + 1 + k) = int n - 1 then TERMINAL else REGULAR)"
        by blast
      then show ?thesis using Suc f(1) by simp
    qed
  qed
  show ?case using len tr old new ih f(4,5) by simp
qed

text \<open>
  Claim C5. For \<^verbatim>\<open>create_main_line(id, items, color)\<close> with \<open>n \<ge> 1\<close> items the call
  returns a track, registered under \<open>id\<close>, of exactly \<open>n\<close> freshly created stations whose
  payloads are the items in input order; its first and its last station are Terminal (one
  station when \<open>n = 1\<close>), every interior station is Regular, and the total-item counter
  grows by exactly \<open>n\<close>.
\<close>

theorem create_main_line_track:
  assumes "stations_data \<noteq> []"
  shows "\<exists>track net'.
     create_main_line line_id stations_data col net = (Inr track, net') \<and>
     dict_get (tracks net') line_id = Some track \<and>
     track_stations track = [length (heap net) ..< length (heap net) + length stations_data] \<and>
     length (track_stations track) = length stations_data \<and>
     map (\<lambda>s. data (heap net' ! s)) (track_stations track) = stations_data \<and>
     station_type (heap net' ! hd (track_stations track)) = TERMINAL \<and>
     station_type (heap net' ! last (track_stations track)) = TERMINAL \<and>
     (\<forall>i. 0 < i \<and> i < length stations_data - 1 \<longrightarrow>
          station_type (heap net' ! (track_stations track ! i)) = REGULAR) \<and>
     total_data_items net' = total_data_items net + int (length stations_data)"
proof -
  let ?n = "length stations_data"
  let ?L = "length (heap net)"
  obtain net1 track prev where
    lp: "main_line_loop line_id col ?n 0 stations_data (net, SubwayTrack_init line_id MAIN col, None)
           = (net1, track, prev)"
    by (metis prod_cases3)
  let ?net' = "net1\<lparr>tracks := dict_set line_id track (tracks net1),
                    total_data_items := total_data_items net1 + int ?n\<rparr>"
  note f = main_line_loop_facts [OF lp]
  have n: "0 < ?n" using assms by simp
  have res: "create_main_line line_id stations_data col net = (Inr track, ?net')"
    by (simp add: create_main_line_def lp)
  have ts: "track_stations track = [?L ..< ?L + ?n]"
    using f by (simp add: SubwayTrack_init_def)
  have new: "\<And>j. j < ?n \<Longrightarrow> data (heap net1 ! (?L + j)) = stations_data ! j \<and>
        station_type (heap net1 ! (?L + j)) =
          (if j = 0 \<or> int j = int ?n - 1 then TERMINAL else REGULAR)"
    using f by simp
  have dat: "map (\<lambda>s. data (heap ?net' ! s)) (track_stations track) = stations_data"
    by (rule nth_equalityI) (simp_all add: ts new)
  have hd: "station_type (heap ?net' ! hd (track_stations track)) = TERMINAL"
    using new [of 0] n by (simp add: ts upt_rec)
  have "last (track_stations track) = ?L + (?n - 1)"
    using n by (cases stations_data) (simp_all add: ts)
  then have lst: "station_type (heap ?net' ! last (track_stations track)) = TERMINAL"
    using new [of "?n - 1"] n by (simp add: of_nat_diff)
  have mid: "\<forall>i. 0 < i \<and> i < ?n - 1 \<longrightarrow>
          station_type (heap ?net' ! (track_stations track ! i)) = REGULAR"
  proof (intro allI impI)
    fix i assume i: "0 < i \<and> i < ?n - 1"
    then have "i < ?n" by arith
    moreover from i have "int i \<noteq> int ?n - 1" "i \<noteq> 0" by linarith+
    ultimately show "station_type (heap ?net' ! (track_stations track ! i)) = REGULAR"
      using new [of i] by (simp add: ts)
  qed
  have tot: "total_data_items ?net' = total_data_items net + int ?n"
    using f by simp
  have reg: "dict_get (tracks ?net') line_id = Some track"
    by simp
  have "create_main_line line_id stations_data col net = (Inr track, ?net') \<and>
     dict_get (tracks ?net') line_id = Some track \<and>
     track_stations track = [?L ..< ?L + ?n] \<and>
     length (track_stations track) = ?n \<and>
     map (\<lambda>s. data (heap ?net' ! s)) (track_stations track) = stations_data \<and>
     station_type (heap ?net' ! hd (track_stations track)) = TERMINAL \<and>
     station_type (heap ?net' ! last (track_stations track)) = TERMINAL \<and>
     (\<forall>i. 0 < i \<and> i < ?n - 1 \<longrightarrow>
          station_type (heap ?net' ! (track_stations track ! i)) = REGULAR) \<and>
     total_data_items ?net' = total_data_items net + int ?n"
    using res reg ts dat hd lst mid tot by (intro conjI) simp_all
  then show ?thesis by (intro exI)
qed

theorem create_main_line_track_witness:
  "\<exists>track net'.
     create_main_line ''N'' [7, 8, 9, 10] ''green'' line3 = (Inr track, net') \<and>
     dict_get (tracks net') ''N'' = Some track \<and>
     track_stations track = [3, 4, 5, 6] \<and>
     map (\<lambda>s. data (heap net' ! s)) (track_stations track) = [7, 8, 9, 10] \<and>
     map (\<lambda>s. station_type (heap net' ! s)) (track_stations track)
       = [TERMINAL, REGULAR, REGULAR, TERMINAL] \<and>
     total_data_items net' = 7"
proof -
  have h: "length (heap line3) = 3" "total_data_items line3 = 3"
    by (simp_all add: line3_def ev)
  have ne: "[7, 8, 9, 10::nat] \<noteq> []" by simp
  from create_main_line_track [OF ne, of "''N''" "''green''" line3]
  obtain track net' where
    r1: "create_main_line ''N'' [7, 8, 9, 10] ''green'' line3 = (Inr track, net')" and
    r2: "dict_get (tracks net') ''N'' = Some track" and
    r3: "track_stations track
        = [length (heap line3) ..< length (heap line3) + length [7, 8, 9, 10::nat]]" and
    r4: "length (track_stations track) = length [7, 8, 9, 10::nat]" and
    r5: "map (\<lambda>s. data (heap net' ! s)) (track_stations track) = [7, 8, 9, 10]" and
    r6: "station_type (heap net' ! hd (track_stations track)) = TERMINAL" and
    r7: "station_type (heap net' ! last (track_stations track)) = TERMINAL" and
    r8: "\<forall>i. 0 < i \<and> i < length [7, 8, 9, 10::nat] - 1 \<longrightarrow>
          station_type (heap net' ! (track_stations track ! i)) = REGULAR" and
    r9: "total_data_items net' = total_data_items line3 + int (length [7, 8, 9, 10::nat])"
    by (elim exE conjE) (rule that; assumption)
  have ts: "track_stations track = [3, 4, 5, 6]"
    using r3 h by (simp add: upt_rec)
  have "station_type (heap net' ! (track_stations track ! 1)) = REGULAR"
    "station_type (heap net' ! (track_stations track ! 2)) = REGULAR"
    using r8 [THEN spec, of 1] r8 [THEN spec, of 2] by simp_all
  then have ty: "map (\<lambda>s. station_type (heap net' ! s)) (track_stations track)
       = [TERMINAL, REGULAR, REGULAR, TERMINAL]"
    using r6 r7 by (simp add: ts)
  have tot: "total_data_items net' = 7"
    using r9 h by simp
  have "create_main_line ''N'' [7, 8, 9, 10] ''green'' line3 = (Inr track, net') \<and>
     dict_get (tracks net') ''N'' = Some track \<and>
     track_stations track = [3, 4, 5, 6] \<and>
     map (\<lambda>s. data (heap net' ! s)) (track_stations track) = [7, 8, 9, 10] \<and>
     map (\<lambda>s. station_type (heap net' ! s)) (track_stations track)
       = [TERMINAL, REGULAR, REGULAR, TERMINAL] \<and>
     total_data_items net' = 7"
    using r1 r2 ts r5 ty tot by (intro conjI)
  then show ?thesis by (intro exI)
qed

section \<open>Missing anchors\<close>

text \<open>
  Claim C2. \<^verbatim>\<open>create_branch_line\<close> with a junction id that is not a key of the stations
  map, \<^verbatim>\<open>create_express_line\<close> with a main line id that is not a key of the tracks map, and
  \<^verbatim>\<open>create_loop_connection\<close> with a missing start or end station id raise the
  \<^verbatim>\<open>ValueError\<close> of the source (the spec's NotFound) and leave the whole network state as it
  was.
\<close>

theorem missing_anchor_raises_unchanged:
  "(dict_get (stations net) junction_station_id = None \<longrightarrow>
      create_branch_line branch_id junction_station_id branch_data col net = (Inl ValueError, net))
   \<and> (dict_get (tracks net) main_line_id = None \<longrightarrow>
      create_express_line express_id main_line_id idxs col net = (Inl ValueError, net))
   \<and> (dict_get (stations net) start_station_id = None \<or> dict_get (stations net) end_station_id = None \<longrightarrow>
      create_loop_connection start_station_id end_station_id col net = (Inl ValueError, net))"
  by (auto simp: create_branch_line_def create_express_line_def create_loop_connection_def
           split: option.splits)

theorem missing_anchor_raises_unchanged_witness:
  "create_branch_line ''B'' ''M_station_7'' [4, 5] ''green'' line3 = (Inl ValueError, line3)
   \<and> create_express_line ''E'' ''N'' [0, 2] ''green'' line3 = (Inl ValueError, line3)
   \<and> create_loop_connection ''M_station_0'' ''M_station_3'' ''green'' line3 = (Inl ValueError, line3)"
proof -
  have a: "dict_get (stations line3) ''M_station_7'' = None"
    "dict_get (stations line3) ''M_station_3'' = None"
    by (simp_all add: line3_def ev)
  have b: "dict_get (tracks line3) ''N'' = None"
    by (simp add: line3_def ev)
  show ?thesis
    using missing_anchor_raises_unchanged [where net = line3 and junction_station_id = "''M_station_7''"
        and main_line_id = "''N''" and end_station_id = "''M_station_3''"] a b
    by simp
qed

section \<open>Scenarios\<close>

text \<open>
  Claim C8. In the network built from the empty one by a single \<^verbatim>\<open>create_main_line\<close> call
  with three items, \<^verbatim>\<open>get_network_statistics\<close> reports three stations, two terminal
  points, no junction, and an average connectivity that is the sum over the three station
  objects of the sizes of their next map, prev map, branch-connection list and
  transfer-destination list, divided by three, which is \<open>4/3\<close>. (Python computes the
  quotient as a float; the model as a rational.)
\<close>

theorem three_station_statistics:
  "total_stations (get_network_statistics
       (snd (create_main_line line_id [a, b, c] col SubwayNetwork_init))) = 3
   \<and> terminal_points (get_network_statistics
       (snd (create_main_line line_id [a, b, c] col SubwayNetwork_init))) = 2
   \<and> junction_count (get_network_statistics
       (snd (create_main_line line_id [a, b, c] col SubwayNetwork_init))) = 0
   \<and> length (heap (snd (create_main_line line_id [a, b, c] col SubwayNetwork_init))) = 3
   \<and> avg_connectivity (get_network_statistics
       (snd (create_main_line line_id [a, b, c] col SubwayNetwork_init)))
      = of_nat (sum_list (map (\<lambda>s. length (next_stations s) + length (prev_stations s)
                                 + length (branch_connections s)
                                 + length (transfer_destinations s))
                  (heap (snd (create_main_line line_id [a, b, c] col SubwayNetwork_init))))) / 3
   \<and> avg_connectivity (get_network_statistics
       (snd (create_main_line line_id [a, b, c] col SubwayNetwork_init))) = 4 / 3"
  by (simp add: ev get_network_statistics_def count_type_def connections_def)

theorem three_station_statistics_witness:
  "total_stations (get_network_statistics line3) = 3
   \<and> terminal_points (get_network_statistics line3) = 2
   \<and> junction_count (get_network_statistics line3) = 0
   \<and> avg_connectivity (get_network_statistics line3) = 4 / 3"
  using three_station_statistics [of "''M''" "1::nat" 2 3 "''blue''"]
  by (simp add: line3_def)

text \<open>
  Claim C1. Build, from the empty network, a main line with the six items
  \<open>a, b, c, d, e, f\<close> and an express line over its indices \<open>[0, 5]\<close>, where \<open>a\<close> and
  \<open>f\<close> are equal to themselves and none of \<open>a, \<dots>, e\<close> is equal to \<open>f\<close>, so that the
  two payloads resolve to the first and the sixth station. Then
  \<^verbatim>\<open>find_optimal_route(a, f)\<close> returns the two-station path from station 0 to station 5 of
  the main line, and the frontier entry it returns is the one of the express shortcut of
  station 0, of cost \<open>0.3\<close>: the candidates of the start station are appended in the order
  main edge (cost \<open>1\<close>), express edge (\<open>0.5\<close>), shortcut (\<open>0.3\<close>), the stable sort puts the
  shortcut first, and the search pops it next.
\<close>

theorem express_shortcut_route:
  assumes "eq a a" and "eq f f" and "\<forall>x \<in> set [a, b, c, d, e]. \<not> eq x f"
  shows "find_station_by_data eq (express_scenario line_id col express_id ecol [a, b, c, d, e, f]) a
           = Some 0
       \<and> find_station_by_data eq (express_scenario line_id col express_id ecol [a, b, c, d, e, f]) f
           = Some 5
       \<and> express_skip_to
           (heap (express_scenario line_id col express_id ecol [a, b, c, d, e, f]) ! 0) = Some 5
       \<and> next_options (heap (express_scenario line_id col express_id ecol [a, b, c, d, e, f]))
           {line_id @ ''_station_0''} 0 [line_id @ ''_station_0''] (PyInt 0)
         = Inr [(1, [line_id @ ''_station_0'', line_id @ ''_station_1''], PyInt 1),
                (5, [line_id @ ''_station_0'', line_id @ ''_station_5''], PyFloat (Finite float_0_5)),
                (5, [line_id @ ''_station_0'', line_id @ ''_station_5''], PyFloat (Finite float_0_3))]
       \<and> sort_key (\<lambda>x. cost_key (snd (snd x)))
           [(1, [line_id @ ''_station_0'', line_id @ ''_station_1''], PyInt 1),
            (5, [line_id @ ''_station_0'', line_id @ ''_station_5''], PyFloat (Finite float_0_5)),
            (5, [line_id @ ''_station_0'', line_id @ ''_station_5''], PyFloat (Finite float_0_3))]
         = [(5, [line_id @ ''_station_0'', line_id @ ''_station_5''], PyFloat (Finite float_0_3)),
            (5, [line_id @ ''_station_0'', line_id @ ''_station_5''], PyFloat (Finite float_0_5)),
            (1::nat, [line_id @ ''_station_0'', line_id @ ''_station_1''], PyInt 1)]
       \<and> route_loop (heap (express_scenario line_id col express_id ecol [a, b, c, d, e, f])) 5
           [(0, [line_id @ ''_station_0''], PyInt 0)] {}
         = Some (Inr (Some (5, [line_id @ ''_station_0'', line_id @ ''_station_5''],
                            PyFloat (Finite float_0_3))))
       \<and> find_optimal_route eq (express_scenario line_id col express_id ecol [a, b, c, d, e, f]) a f
         = Some (Inr [line_id @ ''_station_0'', line_id @ ''_station_5''])"
proof -
  let ?net = "express_scenario line_id col express_id ecol [a, b, c, d, e, f]"
  let ?id0 = "line_id @ ''_station_0''"
  let ?id1 = "line_id @ ''_station_1''"
  let ?id5 = "line_id @ ''_station_5''"
  let ?main = "(1::nat, [?id0, ?id1], PyInt 1)"
  let ?express = "(5::nat, [?id0, ?id5], PyFloat (Finite float_0_5))"
  let ?shortcut = "(5::nat, [?id0, ?id5], PyFloat (Finite float_0_3))"
  let ?s = "\<lambda>i dat ty nx pv sk cs.
     \<lparr>station_id = line_id @ ''_station_'' @ [i], data = dat, station_type = ty,
      next_stations = nx, prev_stations = pv, branch_connections = [],
      express_skip_to = sk, transfer_destinations = [], line_colors = cs\<rparr>"
  have h: "heap ?net =
     [?s CHR ''0'' a EXPRESS [(MAIN, 1), (EXPRESS_TRACK, 5)] [] (Some 5) {ecol, col},
      ?s CHR ''1'' b REGULAR [(MAIN, 2)] [(MAIN, 0)] None {col},
      ?s CHR ''2'' c REGULAR [(MAIN, 3)] [(MAIN, 1)] None {col},
      ?s CHR ''3'' d REGULAR [(MAIN, 4)] [(MAIN, 2)] None {col},
      ?s CHR ''4'' e REGULAR [(MAIN, 5)] [(MAIN, 3)] None {col},
      ?s CHR ''5'' f EXPRESS [] [(MAIN, 4), (EXPRESS_TRACK, 0)] None {ecol, col}]"
    by (simp add: express_scenario_def ev numeral_eq_Suc)
  have st: "dict_values (stations ?net) = [0, 1, 2, 3, 4, 5]"
    by (simp add: express_scenario_def ev numeral_eq_Suc)
  have start: "find_station_by_data eq ?net a = Some 0"
    using assms(1) by (simp add: find_station_by_data_def st h)
  have fin: "find_station_by_data eq ?net f = Some 5"
    using assms(2,3) by (simp add: find_station_by_data_def st h)
  have skip: "express_skip_to (heap ?net ! 0) = Some 5"
    by (simp add: h)
  have opts: "next_options (heap ?net) {?id0} 0 [?id0] (PyInt 0) = Inr [?main, ?express, ?shortcut]"
    by (simp add: next_options_def express_skip_option_def loop_option_def append_option_def
          py_add_int_def py_add_float_0 h dict_get_def)
  have srt: "sort_key (\<lambda>x. cost_key (snd (snd x))) [?main, ?express, ?shortcut]
      = [?shortcut, ?express, ?main]"
    by (simp add: float_0_3_def float_0_5_def)
  have id0: "station_id (heap ?net ! 0) = ?id0" and id5: "station_id (heap ?net ! 5) = ?id5"
    by (simp_all add: h)
  have "route_loop (heap ?net) 5 [(0, [?id0], PyInt 0)] {}
      = route_loop (heap ?net) 5
          ([] @ sort_key (\<lambda>x. cost_key (snd (snd x))) [?main, ?express, ?shortcut])
          (insert (station_id (heap ?net ! 0)) {})"
    by (rule route_loop_expand) (simp_all add: id0 opts)
  also have "\<dots> = route_loop (heap ?net) 5 [?shortcut, ?express, ?main] {?id0}"
    by (simp only: id0 srt append_Nil)
  also have "\<dots> = Some (Inr (Some ?shortcut))"
    by (rule route_loop_found) (simp_all add: id5)
  finally have loop: "route_loop (heap ?net) 5 [(0, [?id0], PyInt 0)] {}
      = Some (Inr (Some ?shortcut))" .
  have route: "find_optimal_route eq ?net a f = Some (Inr [?id0, ?id5])"
    by (simp add: find_optimal_route_def start fin id0 loop)
  show ?thesis
    using start fin skip opts srt loop route by (intro conjI)
qed

theorem express_shortcut_route_witness:
  "route_loop (heap (express_scenario ''M'' ''blue'' ''E'' ''red'' [''A'', ''B'', ''C'', ''D'', ''E'', ''F'']))
       5 [(0, [''M_station_0''], PyInt 0)] {}
     = Some (Inr (Some (5, [''M_station_0'', ''M_station_5''], PyFloat (Finite float_0_3))))
   \<and> find_optimal_route (=)
       (express_scenario ''M'' ''blue'' ''E'' ''red'' [''A'', ''B'', ''C'', ''D'', ''E'', ''F''])
       ''A'' ''F''
     = Some (Inr [''M_station_0'', ''M_station_5''])"
proof -
  have d: "\<forall>x \<in> set [''A'', ''B'', ''C'', ''D'', ''E'']. \<not> x = ''F''" by simp
  note th = express_shortcut_route [of "(=)" "''A''" "''F''" "''B''" "''C''" "''D''" "''E''",
      OF refl refl d, of "''M''" "''blue''" "''E''" "''red''"]
  show ?thesis
    using th by simp
qed

section \<open>Well-formedness is invariant\<close>

subsection \<open>Dictionaries\<close>

lemma dict_set_keys_mem: "(k, v') \<in> set kvs \<Longrightarrow> map fst (dict_set k v kvs) = map fst kvs"
  by (induction kvs) auto

lemma dict_set_keys_in: "k \<in> fst ` set kvs \<Longrightarrow> map fst (dict_set k v kvs) = map fst kvs"
  using dict_set_keys_mem by fastforce

lemma dict_set_keys_notin:
  "k \<notin> fst ` set kvs \<Longrightarrow> map fst (dict_set k v kvs) = map fst kvs @ [k]"
  by (induction kvs) auto

lemma dict_set_keys:
  "map fst (dict_set k v kvs) = (if k \<in> fst ` set kvs then map fst kvs else map fst kvs @ [k])"
  by (simp add: dict_set_keys_in dict_set_keys_notin)

lemma distinct_dict_set [simp]:
  "distinct (map fst (dict_set k v kvs)) = distinct (map fst kvs)"
  by (simp add: dict_set_keys)

lemma set_dict_set_subset: "set (dict_set k v kvs) \<subseteq> insert (k, v) (set kvs)"
  by (induction kvs) (auto split: if_splits)

lemma dict_set_mem: "(k, v) \<in> set (dict_set k v kvs)"
  by (induction kvs) auto

lemma dict_set_other:
  "(k', v') \<in> set kvs \<Longrightarrow> k' \<noteq> k \<Longrightarrow> (k', v') \<in> set (dict_set k v kvs)"
  by (induction kvs) auto

lemma dict_get_Some_mem: "dict_get kvs k = Some v \<Longrightarrow> (k, v) \<in> set kvs"
  by (simp add: dict_get_def map_of_SomeD)

lemma dict_get_mem: "distinct (map fst kvs) \<Longrightarrow> (k, v) \<in> set kvs \<Longrightarrow> dict_get kvs k = Some v"
  by (simp add: dict_get_def)

subsection \<open>Validity of a station under field updates\<close>

lemma valid_station_mono: "valid_station n s \<Longrightarrow> n \<le> m \<Longrightarrow> valid_station m s"
  by (fastforce simp: valid_station_def)

lemma valid_station_init [simp]: "valid_station n (SubwayStation_init sid d ty)"
  by (simp add: valid_station_def SubwayStation_init_def)

lemma valid_station_updates [simp]:
  "valid_station n (s\<lparr>line_colors := cs\<rparr>) = valid_station n s"
  "valid_station n (s\<lparr>station_type := ty\<rparr>) = valid_station n s"
  by (simp_all add: valid_station_def)

lemma valid_station_next:
  "valid_station n s \<Longrightarrow> a < n \<Longrightarrow>
   valid_station n (s\<lparr>next_stations := dict_set k a (next_stations s)\<rparr>)"
  using set_dict_set_subset [of k a "next_stations s"]
  by (fastforce simp: valid_station_def)

lemma valid_station_prev:
  "valid_station n s \<Longrightarrow> a < n \<Longrightarrow>
   valid_station n (s\<lparr>prev_stations := dict_set k a (prev_stations s)\<rparr>)"
  using set_dict_set_subset [of k a "prev_stations s"]
  by (fastforce simp: valid_station_def)

lemma valid_station_branch:
  "valid_station n s \<Longrightarrow> a < n \<Longrightarrow>
   valid_station n (s\<lparr>branch_connections := branch_connections s @ [a]\<rparr>)"
  by (auto simp: valid_station_def)

lemma valid_station_skip:
  "valid_station n s \<Longrightarrow> a < n \<Longrightarrow> valid_station n (s\<lparr>express_skip_to := Some a\<rparr>)"
  by (auto simp: valid_station_def)

lemma valid_station_transfer:
  "valid_station n s \<Longrightarrow> a < n \<Longrightarrow>
   valid_station n (s\<lparr>transfer_destinations := transfer_destinations s @ [(a, c)]\<rparr>)"
  by (auto simp: valid_station_def)

subsection \<open>Well-formedness under the primitive steps\<close>

lemma wf_net_init: "wf_net SubwayNetwork_init"
  by (simp add: wf_net_def SubwayNetwork_init_def)

lemma wf_modify:
  assumes "wf_net net"
    and "\<And>s. valid_station (length (heap net)) s \<Longrightarrow> valid_station (length (heap net)) (f s)"
    and "\<And>s. station_id (f s) = station_id s"
  shows "wf_net (modify a f net)"
proof (cases "a < length (heap net)")
  case True
  have "set ((heap net)[a := f (heap net ! a)]) \<subseteq> insert (f (heap net ! a)) (set (heap net))"
    by (rule set_update_subset_insert)
  moreover have "valid_station (length (heap net)) (f (heap net ! a))"
    using assms(1,2) True by (simp add: wf_net_def)
  ultimately have "\<forall>s \<in> set (heap (modify a f net)). valid_station (length (heap net)) s"
    using assms(1) by (auto simp: modify_def wf_net_def)
  then show ?thesis
    using assms(1,3) by (auto simp: wf_net_def heap_modify_nth)
next
  case False
  then have "modify a f net = net" by (simp add: modify_def list_update_beyond)
  with assms(1) show ?thesis by simp
qed

lemma wf_alloc:
  assumes "wf_net net" and "valid_station (Suc (length (heap net))) s"
  shows "wf_net (snd (alloc s net))"
  using assms
  by (auto simp: wf_net_def alloc_def nth_append less_Suc_eq
           intro: valid_station_mono [where n = "length (heap net)"])

lemma wf_stations_update:
  assumes "wf_net net" and "a < length (heap net)" and "station_id (heap net ! a) = k"
  shows "wf_net (net\<lparr>stations := dict_set k a (stations net)\<rparr>)"
  using assms set_dict_set_subset [of k a "stations net"]
  by (fastforce simp: wf_net_def)

lemma wf_tracks_update:
  assumes "wf_net net" and "track_id t = k" and "\<forall>a \<in> set (track_stations t). a < length (heap net)"
  shows "wf_net (net\<lparr>tracks := dict_set k t (tracks net)\<rparr>)"
  using assms set_dict_set_subset [of k t "tracks net"]
  by (fastforce simp: wf_net_def)

lemma wf_total_update [simp]: "wf_net (net\<lparr>total_data_items := n\<rparr>) = wf_net net"
  by (simp add: wf_net_def)

lemma wf_stations_valid:
  "wf_net net \<Longrightarrow> dict_get (stations net) k = Some a \<Longrightarrow>
   a < length (heap net) \<and> station_id (heap net ! a) = k"
  by (auto simp: wf_net_def dest!: dict_get_Some_mem)

lemma wf_tracks_valid:
  "wf_net net \<Longrightarrow> dict_get (tracks net) k = Some t \<Longrightarrow>
   track_id t = k \<and> (\<forall>a \<in> set (track_stations t). a < length (heap net))"
  by (auto simp: wf_net_def dest!: dict_get_Some_mem)

lemma station_id_modify [simp]:
  "(\<And>s. station_id (f s) = station_id s) \<Longrightarrow>
   station_id (heap (modify a f net) ! b) = station_id (heap net ! b)"
  by (simp add: heap_modify_nth)

lemma wf_main_line_step:
  assumes "wf_net net"
    and "\<forall>a \<in> set (track_stations track). a < length (heap net)"
    and "\<forall>p \<in> set_option prev. p < length (heap net)"
    and "main_line_step lid col n i d (net, track, prev) = (net', track', prev')"
  shows "wf_net net' \<and> (\<forall>a \<in> set (track_stations track'). a < length (heap net')) \<and>
         (\<forall>p \<in> set_option prev'. p < length (heap net')) \<and> track_id track' = track_id track"
proof -
  define L where "L = length (heap net)"
  define sid where "sid = lid @ ''_station_'' @ str_nat i"
  define s0 where
    "s0 = SubwayStation_init sid d (if i = 0 \<or> int i = int n - 1 then TERMINAL else REGULAR)"
  define n2 where
    "n2 = modify L (\<lambda>s. s\<lparr>line_colors := insert col (line_colors s)\<rparr>) (snd (alloc s0 net))"
  define n3 where "n3 = (case prev of None \<Rightarrow> n2
     | Some p \<Rightarrow> modify p (\<lambda>s. s\<lparr>next_stations := dict_set MAIN L (next_stations s)\<rparr>)
           (modify L (\<lambda>s. s\<lparr>prev_stations := dict_set MAIN p (prev_stations s)\<rparr>) n2))"
  have w1: "wf_net (snd (alloc s0 net))"
    using assms(1) by (intro wf_alloc) (simp_all add: s0_def)
  have w2: "wf_net n2" unfolding n2_def using w1 by (intro wf_modify) simp_all
  have l2: "length (heap n2) = Suc L" by (simp add: n2_def L_def)
  have w3: "wf_net n3"
  proof (cases prev)
    case None
    then show ?thesis using w2 by (simp add: n3_def)
  next
    case (Some p)
    then have "p < Suc L" using assms(3) by (simp add: L_def)
    then show ?thesis
      unfolding n3_def Some option.case using w2 l2
      by (intro wf_modify valid_station_next valid_station_prev) simp_all
  qed
  have l3: "length (heap n3) = Suc L" by (simp add: n3_def l2 split: option.splits)
  have id3: "station_id (heap n3 ! L) = sid"
    by (simp add: n3_def n2_def s0_def L_def SubwayStation_init_def split: option.splits)
  have w4: "wf_net (n3\<lparr>stations := dict_set sid L (stations n3)\<rparr>)"
    using w3 l3 id3 by (intro wf_stations_update) simp_all
  have res: "net' = n3\<lparr>stations := dict_set sid L (stations n3)\<rparr> \<and>
    track' = track\<lparr>track_stations := track_stations track @ [L]\<rparr> \<and> prev' = Some L"
    using assms(4)
    by (cases prev)
      (auto simp: main_line_step_def Let_def split_beta n3_def n2_def s0_def sid_def L_def)
  show ?thesis
    using w4 l3 assms(2) by (auto simp: res less_Suc_eq L_def)
qed

lemma wf_main_line_loop:
  assumes "wf_net net"
    and "\<forall>a \<in> set (track_stations track). a < length (heap net)"
    and "\<forall>p \<in> set_option prev. p < length (heap net)"
    and "main_line_loop lid col n i ds (net, track, prev) = (net', track', prev')"
  shows "wf_net net' \<and> (\<forall>a \<in> set (track_stations track'). a < length (heap net')) \<and>
         track_id track' = track_id track"
  using assms
proof (induction ds arbitrary: i net track prev)
  case Nil
  then show ?case by simp
next
  case (Cons d ds)
  obtain net1 track1 prev1 where
    st: "main_line_step lid col n i d (net, track, prev) = (net1, track1, prev1)"
    by (metis prod_cases3)
  from Cons.prems(4) st have
    lp: "main_line_loop lid col n (i + 1) ds (net1, track1, prev1) = (net', track', prev')"
    by simp
  note s = wf_main_line_step [OF Cons.prems(1-3) st]
  from Cons.IH [OF _ _ _ lp] s show ?case by simp
qed

lemma wf_create_main_line:
  assumes "wf_net net"
  shows "wf_net (snd (create_main_line lid ds col net))"
proof -
  obtain net1 track prev where
    lp: "main_line_loop lid col (length ds) 0 ds (net, SubwayTrack_init lid MAIN col, None)
           = (net1, track, prev)"
    by (metis prod_cases3)
  have "wf_net net1 \<and> (\<forall>a \<in> set (track_stations track). a < length (heap net1)) \<and>
         track_id track = track_id (SubwayTrack_init lid MAIN col)"
    using assms by (intro wf_main_line_loop [OF _ _ _ lp]) (simp_all add: SubwayTrack_init_def)
  then have "wf_net (net1\<lparr>tracks := dict_set lid track (tracks net1)\<rparr>)"
    by (intro wf_tracks_update) (simp_all add: SubwayTrack_init_def)
  then show ?thesis by (simp add: create_main_line_def lp)
qed


lemma wf_branch_line_step:
  assumes "wf_net net"
    and "\<forall>a \<in> set (track_stations track). a < length (heap net)"
    and "prev < length (heap net)" and "j < length (heap net)"
    and "branch_line_step bid col n j i d (net, track, prev) = (net', track', prev')"
  shows "wf_net net' \<and> (\<forall>a \<in> set (track_stations track'). a < length (heap net')) \<and>
         prev' < length (heap net') \<and> j < length (heap net') \<and> track_id track' = track_id track"
proof -
  define L where "L = length (heap net)"
  define sid where "sid = bid @ ''_station_'' @ str_nat i"
  define s0 where
    "s0 = SubwayStation_init sid d (if int i = int n - 1 then TERMINAL else REGULAR)"
  define n4 where
    "n4 = modify prev (\<lambda>s. s\<lparr>next_stations := dict_set BRANCH L (next_stations s)\<rparr>)
           (modify L (\<lambda>s. s\<lparr>prev_stations := dict_set BRANCH prev (prev_stations s)\<rparr>)
             (modify L (\<lambda>s. s\<lparr>line_colors := insert col (line_colors s)\<rparr>)
                (snd (alloc s0 net))))"
  define n5 where
    "n5 = (if i = 0
           then modify j (\<lambda>s. s\<lparr>branch_connections := branch_connections s @ [L]\<rparr>) n4
           else n4)"
  have w1: "wf_net (snd (alloc s0 net))"
    using assms(1) by (intro wf_alloc) (simp_all add: s0_def)
  have w4: "wf_net n4"
    unfolding n4_def using w1 assms(3)
    by (intro wf_modify valid_station_next valid_station_prev) (simp_all add: L_def)
  have l4: "length (heap n4) = Suc L" by (simp add: n4_def L_def)
  have w5: "wf_net n5"
    unfolding n5_def using w4 l4 by (auto intro!: wf_modify valid_station_branch)
  have l5: "length (heap n5) = Suc L" by (simp add: n5_def l4)
  have id5: "station_id (heap n5 ! L) = sid"
    by (simp add: n5_def n4_def s0_def L_def SubwayStation_init_def)
  have w6: "wf_net (n5\<lparr>stations := dict_set sid L (stations n5)\<rparr>)"
    using w5 l5 id5 by (intro wf_stations_update) simp_all
  have res: "net' = n5\<lparr>stations := dict_set sid L (stations n5)\<rparr> \<and>
    track' = track\<lparr>track_stations := track_stations track @ [L]\<rparr> \<and> prev' = L"
    using assms(5)
    by (auto simp: branch_line_step_def Let_def split_beta n5_def n4_def s0_def sid_def L_def)
  show ?thesis
    using w6 l5 assms(2,4) by (auto simp: res less_Suc_eq L_def)
qed

lemma wf_branch_line_loop:
  assumes "wf_net net"
    and "\<forall>a \<in> set (track_stations track). a < length (heap net)"
    and "prev < length (heap net)" and "j < length (heap net)"
    and "branch_line_loop bid col n j i ds (net, track, prev) = (net', track', prev')"
  shows "wf_net net' \<and> (\<forall>a \<in> set (track_stations track'). a < length (heap net')) \<and>
         track_id track' = track_id track"
  using assms
proof (induction ds arbitrary: i net track prev)
  case Nil
  then show ?case by simp
next
  case (Cons d ds)
  obtain net1 track1 prev1 where
    st: "branch_line_step bid col n j i d (net, track, prev) = (net1, track1, prev1)"
    by (metis prod_cases3)
  from Cons.prems(5) st have
    lp: "branch_line_loop bid col n j (i + 1) ds (net1, track1, prev1) = (net', track', prev')"
    by simp
  note s = wf_branch_line_step [OF Cons.prems(1-4) st]
  from Cons.IH [OF _ _ _ _ lp] s show ?case by simp
qed

lemma wf_create_branch_line:
  assumes "wf_net net"
  shows "wf_net (snd (create_branch_line bid jid ds col net))"
proof (cases "dict_get (stations net) jid")
  case None
  then show ?thesis using assms by (simp add: create_branch_line_def)
next
  case (Some j)
  define net0 where "net0 = modify j (\<lambda>s. s\<lparr>station_type := JUNCTION\<rparr>) net"
  have w0: "wf_net net0" unfolding net0_def using assms by (intro wf_modify) simp_all
  have j: "j < length (heap net0)"
    using wf_stations_valid [OF assms Some] by (simp add: net0_def)
  obtain net1 track prev where
    lp: "branch_line_loop bid col (length ds) j 0 ds (net0, SubwayTrack_init bid BRANCH col, j)
           = (net1, track, prev)"
    by (metis prod_cases3)
  have "wf_net net1 \<and> (\<forall>a \<in> set (track_stations track). a < length (heap net1)) \<and>
         track_id track = track_id (SubwayTrack_init bid BRANCH col)"
    using w0 j by (intro wf_branch_line_loop [OF _ _ _ _ lp]) (simp_all add: SubwayTrack_init_def)
  then have "wf_net (net1\<lparr>tracks := dict_set bid track (tracks net1)\<rparr>)"
    by (intro wf_tracks_update) (simp_all add: SubwayTrack_init_def)
  then show ?thesis
    using lp by (simp add: create_branch_line_def Some net0_def)
qed

lemma list_getitem_mem: "list_getitem xs i = Inr x \<Longrightarrow> x \<in> set xs"
  by (auto simp: list_getitem_def split: if_splits)

lemma wf_express_line_step:
  assumes "wf_net net"
    and "\<forall>a \<in> set (track_stations et). a < length (heap net)"
    and "\<forall>p \<in> set_option prev. p < length (heap net)"
    and "station < length (heap net)"
    and "express_line_step col station (net, et, prev) = (net', et', prev')"
  shows "wf_net net' \<and> (\<forall>a \<in> set (track_stations et'). a < length (heap net')) \<and>
         (\<forall>p \<in> set_option prev'. p < length (heap net')) \<and>
         length (heap net') = length (heap net) \<and> track_id et' = track_id et"
proof -
  define n2 where
    "n2 = modify station (\<lambda>s. s\<lparr>line_colors := insert col (line_colors s)\<rparr>)
            (modify station (\<lambda>s. s\<lparr>station_type := EXPRESS\<rparr>) net)"
  define n3 where "n3 = (case prev of None \<Rightarrow> n2
     | Some p \<Rightarrow>
         modify p (\<lambda>s. s\<lparr>express_skip_to := Some station\<rparr>)
           (modify p (\<lambda>s. s\<lparr>next_stations := dict_set EXPRESS_TRACK station (next_stations s)\<rparr>)
              (modify station
                 (\<lambda>s. s\<lparr>prev_stations := dict_set EXPRESS_TRACK p (prev_stations s)\<rparr>) n2)))"
  have w2: "wf_net n2" unfolding n2_def using assms(1) by (intro wf_modify) simp_all
  have l2: "length (heap n2) = length (heap net)" by (simp add: n2_def)
  have w3: "wf_net n3"
  proof (cases prev)
    case None
    then show ?thesis using w2 by (simp add: n3_def)
  next
    case (Some p)
    then have "p < length (heap net)" using assms(3) by simp
    then show ?thesis
      unfolding n3_def Some option.case using w2 l2 assms(4)
      by (intro wf_modify valid_station_next valid_station_prev valid_station_skip) simp_all
  qed
  have l3: "length (heap n3) = length (heap net)" by (simp add: n3_def l2 split: option.splits)
  have res: "net' = n3 \<and> track_stations et' = track_stations et @ [station] \<and>
     track_id et' = track_id et \<and> prev' = Some station"
    using assms(5)
    by (cases prev) (auto simp: express_line_step_def Let_def n3_def n2_def)
  show ?thesis
    using w3 l3 assms(2,4) by (auto simp: res)
qed

lemma wf_express_line_loop:
  assumes "wf_net net"
    and "\<forall>a \<in> set (track_stations et). a < length (heap net)"
    and "\<forall>p \<in> set_option prev. p < length (heap net)"
    and "\<forall>a \<in> set (track_stations mt). a < length (heap net)"
    and "express_line_loop mt col idxs (net, et, prev) = (r, net')"
  shows "wf_net net' \<and>
         (\<forall>et'. r = Inr et' \<longrightarrow>
            (\<forall>a \<in> set (track_stations et'). a < length (heap net')) \<and> track_id et' = track_id et)"
  using assms
proof (induction idxs arbitrary: net et prev)
  case Nil
  then show ?case by auto
next
  case (Cons i idxs)
  show ?case
  proof (cases "i \<ge> int (length (track_stations mt))")
    case True
    with Cons.prems(5) have "express_line_loop mt col idxs (net, et, prev) = (r, net')"
      by simp
    from Cons.IH [OF Cons.prems(1-4) this] show ?thesis .
  next
    case False
    show ?thesis
    proof (cases "list_getitem (track_stations mt) i")
      case (Inl e)
      with False Cons.prems(5) have "r = Inl e" "net' = net" by simp_all
      with Cons.prems(1) show ?thesis by simp
    next
      case (Inr station)
      then have sv: "station < length (heap net)"
        using Cons.prems(4) list_getitem_mem by fastforce
      obtain net1 et1 prev1 where
        st: "express_line_step col station (net, et, prev) = (net1, et1, prev1)"
        by (metis prod_cases3)
      from False Inr Cons.prems(5) st have
        lp: "express_line_loop mt col idxs (net1, et1, prev1) = (r, net')"
        by simp
      note s = wf_express_line_step [OF Cons.prems(1-3) sv st]
      have a: "wf_net net1" "\<forall>a \<in> set (track_stations et1). a < length (heap net1)"
        "\<forall>p \<in> set_option prev1. p < length (heap net1)"
        using s [THEN conjunct1] s [THEN conjunct2, THEN conjunct1]
          s [THEN conjunct2, THEN conjunct2, THEN conjunct1] by - assumption+
      have b: "length (heap net1) = length (heap net)" "track_id et1 = track_id et"
        using s [THEN conjunct2, THEN conjunct2, THEN conjunct2, THEN conjunct1]
          s [THEN conjunct2, THEN conjunct2, THEN conjunct2, THEN conjunct2] by - assumption+
      have "\<forall>a \<in> set (track_stations mt). a < length (heap net1)"
        using Cons.prems(4) by (simp only: b(1))
      from Cons.IH [OF a this lp] show ?thesis unfolding b(2) .
    qed
  qed
qed

lemma wf_create_express_line:
  assumes "wf_net net"
  shows "wf_net (snd (create_express_line eid mid idxs col net))"
proof (cases "dict_get (tracks net) mid")
  case None
  then show ?thesis using assms by (simp add: create_express_line_def)
next
  case (Some mt)
  obtain r net1 where
    lp: "express_line_loop mt col idxs (net, SubwayTrack_init eid EXPRESS_TRACK col, None)
           = (r, net1)"
    by (metis prod.exhaust)
  have mtv: "\<forall>a \<in> set (track_stations mt). a < length (heap net)"
    using wf_tracks_valid [OF assms Some] by simp
  have w: "wf_net net1 \<and>
         (\<forall>et'. r = Inr et' \<longrightarrow>
            (\<forall>a \<in> set (track_stations et'). a < length (heap net1)) \<and>
            track_id et' = track_id (SubwayTrack_init eid EXPRESS_TRACK col))"
    using assms mtv
    by (intro wf_express_line_loop [OF _ _ _ _ lp]) (simp_all add: SubwayTrack_init_def)
  show ?thesis
  proof (cases r)
    case (Inl e)
    then show ?thesis using w lp by (simp add: create_express_line_def Some)
  next
    case (Inr et')
    with w have "wf_net (net1\<lparr>tracks := dict_set eid et' (tracks net1)\<rparr>)"
      by (intro wf_tracks_update) (simp_all add: SubwayTrack_init_def)
    then show ?thesis using Inr lp by (simp add: create_express_line_def Some)
  qed
qed


lemma wf_create_loop_connection:
  assumes "wf_net net"
  shows "wf_net (snd (create_loop_connection sid eid col net))"
proof (cases "dict_get (stations net) sid")
  case None
  then show ?thesis using assms by (simp add: create_loop_connection_def)
next
  case s: (Some s)
  show ?thesis
  proof (cases "dict_get (stations net) eid")
    case None
    then show ?thesis using assms s by (simp add: create_loop_connection_def)
  next
    case e: (Some e)
    have sv: "s < length (heap net)" "e < length (heap net)"
      using wf_stations_valid [OF assms s] wf_stations_valid [OF assms e] by simp_all
    define n4 where
      "n4 = modify e (\<lambda>s. s\<lparr>line_colors := insert col (line_colors s)\<rparr>)
             (modify s (\<lambda>s. s\<lparr>line_colors := insert col (line_colors s)\<rparr>)
               (modify e (\<lambda>x. x\<lparr>prev_stations := dict_set LOOP s (prev_stations x)\<rparr>)
                 (modify s (\<lambda>x. x\<lparr>next_stations := dict_set LOOP e (next_stations x)\<rparr>) net)))"
    have w4: "wf_net n4"
      unfolding n4_def using assms sv
      by (intro wf_modify valid_station_next valid_station_prev) simp_all
    have "wf_net (n4\<lparr>tracks := dict_set (''loop_'' @ sid @ ''_'' @ eid)
              ((SubwayTrack_init (''loop_'' @ sid @ ''_'' @ eid) LOOP col)\<lparr>track_stations := [s, e]\<rparr>)
              (tracks n4)\<rparr>)"
      using w4 sv by (intro wf_tracks_update) (simp_all add: SubwayTrack_init_def n4_def)
    then show ?thesis
      by (simp add: create_loop_connection_def s e Let_def n4_def)
  qed
qed

lemma wf_add_transfer_connection:
  assumes "wf_net net"
  shows "wf_net (snd (add_transfer_connection id1 id2 c net))"
proof (cases "dict_get (stations net) id1")
  case None
  then show ?thesis using assms by (simp add: add_transfer_connection_def)
next
  case s: (Some s1)
  show ?thesis
  proof (cases "dict_get (stations net) id2")
    case None
    then show ?thesis using assms s by (simp add: add_transfer_connection_def)
  next
    case e: (Some s2)
    have sv: "s1 < length (heap net)" "s2 < length (heap net)"
      using wf_stations_valid [OF assms s] wf_stations_valid [OF assms e] by simp_all
    show ?thesis
      using assms sv
      by (simp add: add_transfer_connection_def s e Let_def)
         (intro wf_modify valid_station_transfer; simp)
  qed
qed


lemma min_load_loop_mem:
  "min_load_loop ts m tgt = Some (k, t) \<Longrightarrow>
   ((k, t) \<in> set ts \<and> track_type t \<in> {MAIN, BRANCH}) \<or> tgt = Some (k, t)"
  by (induction ts m tgt rule: min_load_loop.induct) (auto simp: Let_def split: if_splits)

lemma choose_target_mem:
  "choose_target net pl = Some (k, t) \<Longrightarrow> (k, t) \<in> set (tracks net)"
  by (auto simp: choose_target_def split: option.splits if_splits
           dest: min_load_loop_mem dict_get_Some_mem)

lemma wf_insert_data_optimally:
  assumes "wf_net net"
  shows "wf_net (snd (insert_data_optimally d pl net))"
proof (cases "choose_target net pl")
  case None
  then show ?thesis
    using wf_create_main_line [OF assms, of "''main_0''" "[d]" "''blue''"]
    by (auto simp: insert_data_optimally_def split: prod.splits sum.splits)
next
  case (Some kt)
  obtain k t where kt: "kt = (k, t)" by (cases kt)
  have mem: "(k, t) \<in> set (tracks net)"
    using Some kt choose_target_mem by fastforce
  then have tv: "track_id t = k" "\<forall>a \<in> set (track_stations t). a < length (heap net)"
    using assms by (auto simp: wf_net_def)
  define L where "L = length (heap net)"
  define sid where "sid = track_id t @ ''_auto_'' @ str_nat (length (track_stations t))"
  define n2 where
    "n2 = modify L (\<lambda>s. s\<lparr>line_colors := insert (color t) (line_colors s)\<rparr>)
            (snd (alloc (SubwayStation_init sid d REGULAR) net))"
  define m2 where
    "m2 = modify L (\<lambda>s. s\<lparr>prev_stations :=
                            dict_set (track_type t) (last (track_stations t)) (prev_stations s)\<rparr>)
            (modify (last (track_stations t))
               (\<lambda>s. s\<lparr>next_stations := dict_set (track_type t) L (next_stations s)\<rparr>) n2)"
  define m3 where
    "m3 = (if station_type (heap m2 ! last (track_stations t)) = TERMINAL
           then modify (last (track_stations t)) (\<lambda>s. s\<lparr>station_type := REGULAR\<rparr>) m2
           else m2)"
  define n3 where
    "n3 = (if track_stations t \<noteq> []
           then modify L (\<lambda>s. s\<lparr>station_type := TERMINAL\<rparr>) m3 else n2)"
  have w2: "wf_net n2"
    unfolding n2_def using assms by (intro wf_modify wf_alloc) simp_all
  have l2: "length (heap n2) = Suc L" by (simp add: n2_def L_def)
  have lastv: "track_stations t \<noteq> [] \<Longrightarrow> last (track_stations t) < Suc L"
    using tv(2) last_in_set [of "track_stations t"] by (auto simp: L_def less_Suc_eq)
  have wm2: "track_stations t \<noteq> [] \<Longrightarrow> wf_net m2"
    unfolding m2_def using w2 l2 lastv
    by (intro wf_modify valid_station_next valid_station_prev) simp_all
  have wm3: "track_stations t \<noteq> [] \<Longrightarrow> wf_net m3"
    unfolding m3_def using wm2 by (auto intro!: wf_modify)
  have w3: "wf_net n3"
    unfolding n3_def using w2 wm3 by (auto intro!: wf_modify)
  have l3: "length (heap n3) = Suc L"
    by (simp add: n3_def m3_def m2_def l2)
  have id3: "station_id (heap n3 ! L) = sid"
    by (simp add: n3_def m3_def m2_def n2_def L_def SubwayStation_init_def)
  define n4 where
    "n4 = n3\<lparr>tracks := dict_set k (t\<lparr>track_stations := track_stations t @ [L]\<rparr>) (tracks n3)\<rparr>"
  have w4: "wf_net n4"
    unfolding n4_def using w3 l3 tv by (intro wf_tracks_update) (auto simp: L_def)
  have w5: "wf_net (n4\<lparr>stations := dict_set sid L (stations n4)\<rparr>)"
    using w4 l3 id3 by (intro wf_stations_update) (simp_all add: n4_def)
  have "snd (insert_data_optimally d pl net) =
      (n4\<lparr>stations := dict_set sid L (stations n4)\<rparr>)
        \<lparr>total_data_items := total_data_items (n4\<lparr>stations := dict_set sid L (stations n4)\<rparr>) + 1\<rparr>"
    by (simp add: insert_data_optimally_def Some kt Let_def split_beta n4_def n3_def m3_def m2_def
        n2_def sid_def L_def)
  then show ?thesis using w5 by simp
qed

lemma wf_apply_call: "wf_net net \<Longrightarrow> wf_net (apply_call c net)"
  by (cases c)
    (simp_all add: wf_create_main_line wf_create_branch_line wf_create_express_line
       wf_create_loop_connection wf_add_transfer_connection wf_insert_data_optimally)

lemma wf_run: "wf_net net \<Longrightarrow> wf_net (run calls net)"
  unfolding run_def by (induction calls arbitrary: net) (simp_all add: wf_apply_call)

lemma wf_run_init: "wf_net (run calls SubwayNetwork_init)"
  by (simp add: wf_run wf_net_init)

section \<open>The example network\<close>

lemma line3_eval:
  "heap line3 =
     [\<lparr>station_id = ''M_station_0'', data = 1, station_type = TERMINAL,
       next_stations = [(MAIN, 1)], prev_stations = [], branch_connections = [],
       express_skip_to = None, transfer_destinations = [], line_colors = {''blue''}\<rparr>,
      \<lparr>station_id = ''M_station_1'', data = 2, station_type = REGULAR,
       next_stations = [(MAIN, 2)], prev_stations = [(MAIN, 0)], branch_connections = [],
       express_skip_to = None, transfer_destinations = [], line_colors = {''blue''}\<rparr>,
      \<lparr>station_id = ''M_station_2'', data = 3, station_type = TERMINAL,
       next_stations = [], prev_stations = [(MAIN, 1)], branch_connections = [],
       express_skip_to = None, transfer_destinations = [], line_colors = {''blue''}\<rparr>]"
  "stations line3 = [(''M_station_0'', 0), (''M_station_1'', 1), (''M_station_2'', 2)]"
  "tracks line3 = [(''M'', \<lparr>track_id = ''M'', track_type = MAIN, color = ''blue'',
                            track_stations = [0, 1, 2], express_stops = {}\<rparr>)]"
  "total_data_items line3 = 3"
  by (simp_all add: line3_def ev numeral_eq_Suc)

lemma wf_line3: "wf_net line3"
  unfolding line3_def by (intro wf_create_main_line wf_net_init)

section \<open>Transfer connections\<close>

text \<open>
  Claim C7, as amended. In a well-formed network: when the two station ids exist and are
  different, they name two different station objects and
  \<^verbatim>\<open>add_transfer_connection(id1, id2, cost)\<close> returns normally in the state that differs
  from the state before only in these two objects, and in them only in two fields: the entry
  (station 2, cost) is appended to the transfer destinations of station 1, the entry
  (station 1, cost) to those of station 2, and the category of both is Transfer. When both
  ids are the same existing id, the one station receives two entries (itself, cost) and
  becomes Transfer, and nothing else changes. When either id is missing the call returns
  normally and the network state is unchanged.
\<close>

theorem add_transfer_connection_effect:
  assumes "wf_net net"
  shows "(dict_get (stations net) station1_id = Some s1 \<and>
          dict_get (stations net) station2_id = Some s2 \<and> station1_id \<noteq> station2_id \<longrightarrow>
            s1 \<noteq> s2 \<and> s1 < length (heap net) \<and> s2 < length (heap net) \<and>
            add_transfer_connection station1_id station2_id c net
              = (Inr (),
                 net\<lparr>heap := (heap net)
                    [s1 := (heap net ! s1)
                       \<lparr>station_type := TRANSFER,
                        transfer_destinations :=
                          transfer_destinations (heap net ! s1) @ [(s2, c)]\<rparr>,
                     s2 := (heap net ! s2)
                       \<lparr>station_type := TRANSFER,
                        transfer_destinations :=
                          transfer_destinations (heap net ! s2) @ [(s1, c)]\<rparr>]\<rparr>))
       \<and> (dict_get (stations net) station1_id = Some s1 \<and> station2_id = station1_id \<longrightarrow>
            s1 < length (heap net) \<and>
            add_transfer_connection station1_id station2_id c net
              = (Inr (),
                 net\<lparr>heap := (heap net)
                    [s1 := (heap net ! s1)
                       \<lparr>station_type := TRANSFER,
                        transfer_destinations :=
                          transfer_destinations (heap net ! s1) @ [(s1, c), (s1, c)]\<rparr>]\<rparr>))
       \<and> (dict_get (stations net) station1_id = None \<or>
          dict_get (stations net) station2_id = None \<longrightarrow>
            add_transfer_connection station1_id station2_id c net = (Inr (), net))"
proof (intro conjI impI)
  assume a: "dict_get (stations net) station1_id = Some s1 \<and>
          dict_get (stations net) station2_id = Some s2 \<and> station1_id \<noteq> station2_id"
  then have v: "s1 < length (heap net)" "s2 < length (heap net)"
    "station_id (heap net ! s1) = station1_id" "station_id (heap net ! s2) = station2_id"
    using wf_stations_valid [OF assms] by blast+
  from v show "s1 < length (heap net)" "s2 < length (heap net)" by simp_all
  from a v show ne: "s1 \<noteq> s2" by auto
  let ?h = "heap net"
  let ?A = "(?h ! s1)\<lparr>station_type := TRANSFER,
                        transfer_destinations := transfer_destinations (?h ! s1) @ [(s2, c)]\<rparr>"
  let ?B = "(?h ! s2)\<lparr>station_type := TRANSFER,
                        transfer_destinations := transfer_destinations (?h ! s2) @ [(s1, c)]\<rparr>"
  have "heap (snd (add_transfer_connection station1_id station2_id c net)) = ?h[s1 := ?A, s2 := ?B]"
    using a v ne
    by (intro nth_equalityI)
       (simp_all add: add_transfer_connection_def Let_def modify_def nth_list_update)
  moreover have "snd (add_transfer_connection station1_id station2_id c net)
      = net\<lparr>heap := heap (snd (add_transfer_connection station1_id station2_id c net))\<rparr>"
    using a by (simp add: add_transfer_connection_def Let_def modify_def)
  moreover have "fst (add_transfer_connection station1_id station2_id c net) = Inr ()"
    using a by (simp add: add_transfer_connection_def Let_def)
  ultimately show "add_transfer_connection station1_id station2_id c net
      = (Inr (), net\<lparr>heap := ?h[s1 := ?A, s2 := ?B]\<rparr>)"
    by (metis prod.collapse)
next
  assume a: "dict_get (stations net) station1_id = Some s1 \<and> station2_id = station1_id"
  then show v: "s1 < length (heap net)"
    using wf_stations_valid [OF assms] by blast
  let ?h = "heap net"
  let ?A = "(?h ! s1)\<lparr>station_type := TRANSFER,
               transfer_destinations := transfer_destinations (?h ! s1) @ [(s1, c), (s1, c)]\<rparr>"
  have "heap (snd (add_transfer_connection station1_id station2_id c net)) = ?h[s1 := ?A]"
    using a v
    by (intro nth_equalityI)
       (simp_all add: add_transfer_connection_def Let_def modify_def nth_list_update)
  moreover have "snd (add_transfer_connection station1_id station2_id c net)
      = net\<lparr>heap := heap (snd (add_transfer_connection station1_id station2_id c net))\<rparr>"
    using a by (simp add: add_transfer_connection_def Let_def modify_def)
  moreover have "fst (add_transfer_connection station1_id station2_id c net) = Inr ()"
    using a by (simp add: add_transfer_connection_def Let_def)
  ultimately show "add_transfer_connection station1_id station2_id c net
      = (Inr (), net\<lparr>heap := ?h[s1 := ?A]\<rparr>)"
    by (metis prod.collapse)
next
  assume "dict_get (stations net) station1_id = None \<or>
          dict_get (stations net) station2_id = None"
  then show "add_transfer_connection station1_id station2_id c net = (Inr (), net)"
    by (auto simp: add_transfer_connection_def split: option.splits)
qed

theorem add_transfer_connection_effect_witness:
  "add_transfer_connection ''M_station_0'' ''M_station_2'' 4 line3
     = (Inr (),
        line3\<lparr>heap := (heap line3)
           [0 := (heap line3 ! 0)\<lparr>station_type := TRANSFER, transfer_destinations := [(2, 4)]\<rparr>,
            2 := (heap line3 ! 2)\<lparr>station_type := TRANSFER, transfer_destinations := [(0, 4)]\<rparr>]\<rparr>)
   \<and> add_transfer_connection ''M_station_1'' ''M_station_1'' 4 line3
     = (Inr (),
        line3\<lparr>heap := (heap line3)
           [1 := (heap line3 ! 1)
              \<lparr>station_type := TRANSFER, transfer_destinations := [(1, 4), (1, 4)]\<rparr>]\<rparr>)
   \<and> add_transfer_connection ''M_station_0'' ''M_station_3'' 4 line3 = (Inr (), line3)"
proof -
  have g: "dict_get (stations line3) ''M_station_0'' = Some 0"
    "dict_get (stations line3) ''M_station_1'' = Some 1"
    "dict_get (stations line3) ''M_station_2'' = Some 2"
    "dict_get (stations line3) ''M_station_3'' = None"
    by (simp_all add: line3_eval dict_get_def)
  have t: "transfer_destinations (heap line3 ! 0) = []"
    "transfer_destinations (heap line3 ! 1) = []"
    "transfer_destinations (heap line3 ! 2) = []"
    "transfer_destinations (heap line3 ! Suc 0) = []"
    by (simp_all add: line3_eval)
  have a: "add_transfer_connection ''M_station_0'' ''M_station_2'' 4 line3
     = (Inr (),
        line3\<lparr>heap := (heap line3)
           [0 := (heap line3 ! 0)\<lparr>station_type := TRANSFER, transfer_destinations := [(2, 4)]\<rparr>,
            2 := (heap line3 ! 2)\<lparr>station_type := TRANSFER, transfer_destinations := [(0, 4)]\<rparr>]\<rparr>)"
    using add_transfer_connection_effect [OF wf_line3, of "''M_station_0''" 0 "''M_station_2''" 2 4]
    by (simp add: g t)
  have b: "add_transfer_connection ''M_station_1'' ''M_station_1'' 4 line3
     = (Inr (),
        line3\<lparr>heap := (heap line3)
           [1 := (heap line3 ! 1)
              \<lparr>station_type := TRANSFER, transfer_destinations := [(1, 4), (1, 4)]\<rparr>]\<rparr>)"
    using add_transfer_connection_effect [OF wf_line3, of "''M_station_1''" 1 "''M_station_1''" 1 4]
    by (simp add: g t)
  have c: "add_transfer_connection ''M_station_0'' ''M_station_3'' 4 line3 = (Inr (), line3)"
    using add_transfer_connection_effect [OF wf_line3, of "''M_station_0''" 0 "''M_station_3''" 0 4]
    by (simp add: g)
  show ?thesis using a b c by (intro conjI)
qed

text \<open>
  The claim as first stated (exactly one entry appended to each station's list whenever both
  ids exist) fails when both ids name the same station: station 1 of the three-station line
  has no transfer destination before the call and two after it.
\<close>

theorem add_transfer_connection_self_counterexample:
  "dict_get (stations line3) ''M_station_1'' = Some 1
   \<and> transfer_destinations (heap line3 ! 1) = []
   \<and> transfer_destinations
       (heap (snd (add_transfer_connection ''M_station_1'' ''M_station_1'' 4 line3)) ! 1)
     = [(1, 4), (1, 4)]"
  by (simp add: add_transfer_connection_def line3_eval dict_get_def modify_def Let_def)

section \<open>Negative indices of an express line\<close>








section \<open>Consistency of the next and prev maps\<close>

lemma dict_get_Nil [simp]: "dict_get [] k = None"
  by (simp add: dict_get_def)

lemma dict_get_Cons [simp]:
  "dict_get ((k, v) # kvs) k' = (if k' = k then Some v else dict_get kvs k')"
  by (simp add: dict_get_def)

lemma link_consistent_frame:
  assumes "link_consistent net k"
    and "length (heap net') = length (heap net)"
    and "\<And>a. a < length (heap net) \<Longrightarrow>
           dict_get (next_stations (heap net' ! a)) k = dict_get (next_stations (heap net ! a)) k"
    and "\<And>a. a < length (heap net) \<Longrightarrow>
           dict_get (prev_stations (heap net' ! a)) k = dict_get (prev_stations (heap net ! a)) k"
    and "\<And>a b. a < length (heap net) \<Longrightarrow>
           dict_get (next_stations (heap net ! a)) k = Some b \<Longrightarrow> b < length (heap net)"
  shows "link_consistent net' k"
  using assms unfolding link_consistent_def by metis

lemma link_consistent_modify:
  assumes "link_consistent net k"
    and "\<And>s. dict_get (next_stations (f s)) k = dict_get (next_stations s) k"
    and "\<And>s. dict_get (prev_stations (f s)) k = dict_get (prev_stations s) k"
  shows "link_consistent (modify a f net) k"
  using assms unfolding link_consistent_def by (simp add: heap_modify_nth)

lemma link_consistent_fields [simp]:
  "link_consistent (net\<lparr>stations := st\<rparr>) k = link_consistent net k"
  "link_consistent (net\<lparr>tracks := tr\<rparr>) k = link_consistent net k"
  "link_consistent (net\<lparr>total_data_items := n\<rparr>) k = link_consistent net k"
  by (simp_all add: link_consistent_def)

lemma link_consistent_link:
  assumes "link_consistent net k"
    and "length (heap net') = Suc (length (heap net))"
    and "\<And>a b. a < length (heap net) \<Longrightarrow>
           dict_get (next_stations (heap net ! a)) k = Some b \<Longrightarrow> b < length (heap net)"
    and "\<And>a. a < length (heap net) \<Longrightarrow>
           dict_get (next_stations (heap net' ! a)) k =
             (if linked \<and> a = p then Some (length (heap net))
              else dict_get (next_stations (heap net ! a)) k)"
    and "dict_get (next_stations (heap net' ! length (heap net))) k = None"
    and "\<And>a. a < length (heap net) \<Longrightarrow>
           dict_get (prev_stations (heap net' ! a)) k = dict_get (prev_stations (heap net ! a)) k"
    and "linked \<Longrightarrow> dict_get (prev_stations (heap net' ! length (heap net))) k = Some p"
  shows "link_consistent net' k"
  unfolding link_consistent_def
proof (intro allI impI)
  fix a b
  assume a: "a < length (heap net')"
    and n: "dict_get (next_stations (heap net' ! a)) k = Some b"
  show "dict_get (prev_stations (heap net' ! b)) k = Some a"
  proof (cases "a = length (heap net)")
    case True
    with n assms(5) show ?thesis by simp
  next
    case False
    with a assms(2) have al: "a < length (heap net)" by simp
    show ?thesis
    proof (cases "linked \<and> a = p")
      case True
      with n assms(4) [OF al] have "b = length (heap net)" by simp
      with True assms(7) show ?thesis by simp
    next
      case False
      with n assms(4) [OF al] have o: "dict_get (next_stations (heap net ! a)) k = Some b"
        by simp
      then have "b < length (heap net)" using assms(3) [OF al] by simp
      moreover from o al assms(1) have "dict_get (prev_stations (heap net ! b)) k = Some a"
        by (simp add: link_consistent_def)
      ultimately show ?thesis using assms(6) by simp
    qed
  qed
qed

lemma wf_next_valid:
  "wf_net net \<Longrightarrow> a < length (heap net) \<Longrightarrow>
   dict_get (next_stations (heap net ! a)) k = Some b \<Longrightarrow> b < length (heap net)"
  by (fastforce simp: wf_net_def valid_station_def dest!: dict_get_Some_mem)

lemma link_consistent_main_line_step:
  assumes "wf_net net" and "link_consistent net k"
    and "\<forall>p \<in> set_option prev. p < length (heap net)"
    and "main_line_step lid col n i d (net, track, prev) = (net', track', prev')"
  shows "link_consistent net' k"
proof (cases prev)
  case None
  show ?thesis
    using assms(2)
  proof (rule link_consistent_link [where linked = False])
    show "length (heap net') = Suc (length (heap net))"
      using assms(4) None by (auto simp: main_line_step_def Let_def split_beta)
  qed (use assms(1,4) None in \<open>auto simp: main_line_step_def Let_def split_beta heap_modify_nth
         nth_append SubwayStation_init_def dest: wf_next_valid\<close>)
next
  case (Some p)
  then have p: "p < length (heap net)" using assms(3) by simp
  show ?thesis
    using assms(2)
  proof (rule link_consistent_link [where linked = "k = MAIN" and p = p])
    show "length (heap net') = Suc (length (heap net))"
      using assms(4) Some by (auto simp: main_line_step_def Let_def split_beta)
  qed (use assms(1,4) Some p in \<open>auto simp: main_line_step_def Let_def split_beta heap_modify_nth
         nth_append SubwayStation_init_def dest: wf_next_valid\<close>)
qed


lemma link_consistent_main_line_loop:
  assumes "wf_net net" and "link_consistent net k"
    and "\<forall>a \<in> set (track_stations track). a < length (heap net)"
    and "\<forall>p \<in> set_option prev. p < length (heap net)"
    and "main_line_loop lid col n i ds (net, track, prev) = (net', track', prev')"
  shows "link_consistent net' k"
  using assms
proof (induction ds arbitrary: i net track prev)
  case Nil
  then show ?case by simp
next
  case (Cons d ds)
  obtain net1 track1 prev1 where
    st: "main_line_step lid col n i d (net, track, prev) = (net1, track1, prev1)"
    by (metis prod_cases3)
  from Cons.prems(5) st have
    lp: "main_line_loop lid col n (i + 1) ds (net1, track1, prev1) = (net', track', prev')"
    by simp
  note s = wf_main_line_step [OF Cons.prems(1,3,4) st]
  have l: "link_consistent net1 k"
    by (rule link_consistent_main_line_step [OF Cons.prems(1,2,4) st])
  show ?case
    by (rule Cons.IH [OF s [THEN conjunct1] l s [THEN conjunct2, THEN conjunct1]
          s [THEN conjunct2, THEN conjunct2, THEN conjunct1] lp])
qed

lemma link_consistent_create_main_line:
  assumes "wf_net net" and "link_consistent net k"
  shows "link_consistent (snd (create_main_line lid ds col net)) k"
proof -
  obtain net1 track prev where
    lp: "main_line_loop lid col (length ds) 0 ds (net, SubwayTrack_init lid MAIN col, None)
           = (net1, track, prev)"
    by (metis prod_cases3)
  have "link_consistent net1 k"
    using assms
    by (intro link_consistent_main_line_loop [OF _ _ _ _ lp]) (simp_all add: SubwayTrack_init_def)
  then show ?thesis by (simp add: create_main_line_def lp)
qed

lemma link_consistent_branch_line_step:
  assumes "wf_net net" and "link_consistent net k"
    and "prev < length (heap net)" and "j < length (heap net)"
    and "branch_line_step bid col n j i d (net, track, prev) = (net', track', prev')"
  shows "link_consistent net' k"
  using assms(2)
proof (rule link_consistent_link [where linked = "k = BRANCH" and p = prev])
  show "length (heap net') = Suc (length (heap net))"
    using assms(5) by (auto simp: branch_line_step_def Let_def split_beta)
qed (use assms(1,3,4,5) in \<open>auto simp: branch_line_step_def Let_def split_beta heap_modify_nth
         nth_append SubwayStation_init_def dest: wf_next_valid\<close>)

lemma link_consistent_branch_line_loop:
  assumes "wf_net net" and "link_consistent net k"
    and "\<forall>a \<in> set (track_stations track). a < length (heap net)"
    and "prev < length (heap net)" and "j < length (heap net)"
    and "branch_line_loop bid col n j i ds (net, track, prev) = (net', track', prev')"
  shows "link_consistent net' k"
  using assms
proof (induction ds arbitrary: i net track prev)
  case Nil
  then show ?case by simp
next
  case (Cons d ds)
  obtain net1 track1 prev1 where
    st: "branch_line_step bid col n j i d (net, track, prev) = (net1, track1, prev1)"
    by (metis prod_cases3)
  from Cons.prems(6) st have
    lp: "branch_line_loop bid col n j (i + 1) ds (net1, track1, prev1) = (net', track', prev')"
    by simp
  note s = wf_branch_line_step [OF Cons.prems(1,3,4,5) st]
  have l: "link_consistent net1 k"
    by (rule link_consistent_branch_line_step [OF Cons.prems(1,2,4,5) st])
  show ?case
    by (rule Cons.IH [OF s [THEN conjunct1] l s [THEN conjunct2, THEN conjunct1]
          s [THEN conjunct2, THEN conjunct2, THEN conjunct1]
          s [THEN conjunct2, THEN conjunct2, THEN conjunct2, THEN conjunct1] lp])
qed

lemma link_consistent_create_branch_line:
  assumes "wf_net net" and "link_consistent net k"
  shows "link_consistent (snd (create_branch_line bid jid ds col net)) k"
proof (cases "dict_get (stations net) jid")
  case None
  then show ?thesis using assms by (simp add: create_branch_line_def)
next
  case (Some j)
  define net0 where "net0 = modify j (\<lambda>s. s\<lparr>station_type := JUNCTION\<rparr>) net"
  have w0: "wf_net net0" unfolding net0_def using assms by (intro wf_modify) simp_all
  have l0: "link_consistent net0 k"
    unfolding net0_def using assms(2) by (intro link_consistent_modify) simp_all
  have j: "j < length (heap net0)"
    using wf_stations_valid [OF assms(1) Some] by (simp add: net0_def)
  obtain net1 track prev where
    lp: "branch_line_loop bid col (length ds) j 0 ds (net0, SubwayTrack_init bid BRANCH col, j)
           = (net1, track, prev)"
    by (metis prod_cases3)
  have "link_consistent net1 k"
    using w0 l0 j
    by (intro link_consistent_branch_line_loop [OF _ _ _ _ _ lp])
       (simp_all add: SubwayTrack_init_def)
  then show ?thesis
    using lp by (simp add: create_branch_line_def Some net0_def)
qed

lemma link_consistent_express_line_step:
  assumes "link_consistent net k" and "k \<noteq> EXPRESS_TRACK"
    and "express_line_step col station (net, et, prev) = (net', et', prev')"
  shows "link_consistent net' k"
proof -
  have "net' = (case prev of None \<Rightarrow>
            modify station (\<lambda>s. s\<lparr>line_colors := insert col (line_colors s)\<rparr>)
              (modify station (\<lambda>s. s\<lparr>station_type := EXPRESS\<rparr>) net)
     | Some p \<Rightarrow>
         modify p (\<lambda>s. s\<lparr>express_skip_to := Some station\<rparr>)
           (modify p (\<lambda>s. s\<lparr>next_stations := dict_set EXPRESS_TRACK station (next_stations s)\<rparr>)
              (modify station
                 (\<lambda>s. s\<lparr>prev_stations := dict_set EXPRESS_TRACK p (prev_stations s)\<rparr>)
                 (modify station (\<lambda>s. s\<lparr>line_colors := insert col (line_colors s)\<rparr>)
                    (modify station (\<lambda>s. s\<lparr>station_type := EXPRESS\<rparr>) net)))))"
    using assms(3) by (cases prev) (auto simp: express_line_step_def Let_def)
  then show ?thesis
    using assms(1,2)
    by (cases prev) (auto intro!: link_consistent_modify)
qed

lemma link_consistent_express_line_loop:
  assumes "link_consistent net k" and "k \<noteq> EXPRESS_TRACK"
    and "express_line_loop mt col idxs (net, et, prev) = (r, net')"
  shows "link_consistent net' k"
  using assms
proof (induction idxs arbitrary: net et prev)
  case Nil
  then show ?case by auto
next
  case (Cons i idxs)
  show ?case
  proof (cases "i \<ge> int (length (track_stations mt))")
    case True
    with Cons.prems(3) have "express_line_loop mt col idxs (net, et, prev) = (r, net')"
      by simp
    from Cons.IH [OF Cons.prems(1,2) this] show ?thesis .
  next
    case False
    show ?thesis
    proof (cases "list_getitem (track_stations mt) i")
      case (Inl e)
      with False Cons.prems(3) have "net' = net" by simp
      with Cons.prems(1) show ?thesis by simp
    next
      case (Inr station)
      obtain net1 et1 prev1 where
        st: "express_line_step col station (net, et, prev) = (net1, et1, prev1)"
        by (metis prod_cases3)
      from False Inr Cons.prems(3) st have
        lp: "express_line_loop mt col idxs (net1, et1, prev1) = (r, net')"
        by simp
      have "link_consistent net1 k"
        by (rule link_consistent_express_line_step [OF Cons.prems(1,2) st])
      from Cons.IH [OF this Cons.prems(2) lp] show ?thesis .
    qed
  qed
qed

lemma link_consistent_create_express_line:
  assumes "link_consistent net k" and "k \<noteq> EXPRESS_TRACK"
  shows "link_consistent (snd (create_express_line eid mid idxs col net)) k"
proof (cases "dict_get (tracks net) mid")
  case None
  then show ?thesis using assms by (simp add: create_express_line_def)
next
  case (Some mt)
  obtain r net1 where
    lp: "express_line_loop mt col idxs (net, SubwayTrack_init eid EXPRESS_TRACK col, None)
           = (r, net1)"
    by (metis prod.exhaust)
  have "link_consistent net1 k"
    by (rule link_consistent_express_line_loop [OF assms lp])
  then show ?thesis
    using lp by (cases r) (simp_all add: create_express_line_def Some)
qed

lemma link_consistent_create_loop_connection:
  assumes "link_consistent net k" and "k \<noteq> LOOP"
  shows "link_consistent (snd (create_loop_connection sid eid col net)) k"
  using assms
  by (auto simp: create_loop_connection_def Let_def split: option.splits
           intro!: link_consistent_modify)

lemma link_consistent_add_transfer_connection:
  assumes "link_consistent net k"
  shows "link_consistent (snd (add_transfer_connection id1 id2 c net)) k"
  using assms
  by (auto simp: add_transfer_connection_def Let_def split: option.splits
           intro!: link_consistent_modify)


lemma link_consistent_insert_data_optimally:
  assumes "wf_net net" and "link_consistent net k"
  shows "link_consistent (snd (insert_data_optimally d pl net)) k"
proof (cases "choose_target net pl")
  case None
  then show ?thesis
    using link_consistent_create_main_line [OF assms, of "''main_0''" "[d]" "''blue''"]
    by (auto simp: insert_data_optimally_def split: prod.splits sum.splits)
next
  case (Some kt)
  obtain k' t where kt: "kt = (k', t)" by (cases kt)
  have mem: "(k', t) \<in> set (tracks net)"
    using Some kt choose_target_mem by fastforce
  then have tv: "\<forall>a \<in> set (track_stations t). a < length (heap net)"
    using assms(1) by (auto simp: wf_net_def)
  have lastv: "track_stations t = [] \<or> last (track_stations t) < length (heap net)"
    using tv last_in_set [of "track_stations t"] by (cases "track_stations t = []") auto
  define net' where "net' = snd (insert_data_optimally d pl net)"
  have l: "length (heap net') = Suc (length (heap net))"
    by (simp add: net'_def insert_data_optimally_def Some kt Let_def split_beta)
  have "link_consistent net' k"
    using assms(2) l
  proof (rule link_consistent_link
      [where linked = "track_stations t \<noteq> [] \<and> track_type t = k"
         and p = "last (track_stations t)"])
    fix a b
    assume "a < length (heap net)" "dict_get (next_stations (heap net ! a)) k = Some b"
    then show "b < length (heap net)" using wf_next_valid [OF assms(1)] by blast
  next
    fix a
    assume "a < length (heap net)"
    then show "dict_get (next_stations (heap net' ! a)) k =
             (if (track_stations t \<noteq> [] \<and> track_type t = k) \<and> a = last (track_stations t)
              then Some (length (heap net))
              else dict_get (next_stations (heap net ! a)) k)"
      using lastv
      by (auto simp: net'_def insert_data_optimally_def Some kt Let_def split_beta
            heap_modify_nth nth_append)
  next
    show "dict_get (next_stations (heap net' ! length (heap net))) k = None"
      using lastv
      by (auto simp: net'_def insert_data_optimally_def Some kt Let_def split_beta
            heap_modify_nth nth_append SubwayStation_init_def)
  next
    fix a
    assume "a < length (heap net)"
    then show "dict_get (prev_stations (heap net' ! a)) k
        = dict_get (prev_stations (heap net ! a)) k"
      using lastv
      by (auto simp: net'_def insert_data_optimally_def Some kt Let_def split_beta
            heap_modify_nth nth_append)
  next
    assume "track_stations t \<noteq> [] \<and> track_type t = k"
    then show "dict_get (prev_stations (heap net' ! length (heap net))) k
        = Some (last (track_stations t))"
      using lastv
      by (auto simp: net'_def insert_data_optimally_def Some kt Let_def split_beta
            heap_modify_nth nth_append SubwayStation_init_def)
  qed
  then show ?thesis by (simp add: net'_def)
qed

lemma link_consistent_apply_call:
  assumes "wf_net net" and "link_consistent net k" and "k = MAIN \<or> k = BRANCH"
  shows "link_consistent (apply_call c net) k"
  using assms
  by (cases c)
    (auto intro: link_consistent_create_main_line link_consistent_create_branch_line
       link_consistent_create_express_line link_consistent_create_loop_connection
       link_consistent_add_transfer_connection link_consistent_insert_data_optimally)

lemma link_consistent_init: "link_consistent SubwayNetwork_init k"
  by (simp add: link_consistent_def SubwayNetwork_init_def)

lemma link_consistent_run:
  assumes "wf_net net" and "link_consistent net k" and "k = MAIN \<or> k = BRANCH"
  shows "link_consistent (run calls net) k"
  using assms unfolding run_def
  by (induction calls arbitrary: net) (simp_all add: wf_apply_call link_consistent_apply_call)

lemma loop_calls_eval:
  "map (\<lambda>s. (next_stations s, prev_stations s)) (heap (run loop_calls SubwayNetwork_init))
     = [([(MAIN, 1), (LOOP, 2), (EXPRESS_TRACK, 2)], []),
        ([(MAIN, 2), (LOOP, 2), (EXPRESS_TRACK, 2)], [(MAIN, 0)]),
        ([], [(MAIN, 1), (LOOP, 1), (EXPRESS_TRACK, 1)])]"
  by (simp add: loop_calls_def run_def ev numeral_eq_Suc)

text \<open>
  Claim C3, as amended. After every sequence of calls of the construction operations
  (\<^verbatim>\<open>add_transfer_connection\<close> included) on the empty network, for the edge kinds MAIN and
  BRANCH and all station objects \<open>A\<close>, \<open>B\<close> of the network: if \<open>A.next[k]\<close> is \<open>B\<close> then
  \<open>B\<close> is a station of the network and \<open>B.prev[k]\<close> is \<open>A\<close>.
\<close>

theorem main_branch_links_consistent:
  assumes "k = MAIN \<or> k = BRANCH"
    and "a < length (heap (run calls SubwayNetwork_init))"
    and "dict_get (next_stations (heap (run calls SubwayNetwork_init) ! a)) k = Some b"
  shows "b < length (heap (run calls SubwayNetwork_init)) \<and>
         dict_get (prev_stations (heap (run calls SubwayNetwork_init) ! b)) k = Some a"
proof -
  have w: "wf_net (run calls SubwayNetwork_init)" by (rule wf_run_init)
  have "link_consistent (run calls SubwayNetwork_init) k"
    using wf_net_init link_consistent_init assms(1) by (rule link_consistent_run)
  with assms(2,3) wf_next_valid [OF w assms(2,3)] show ?thesis
    by (simp add: link_consistent_def)
qed

theorem main_branch_links_consistent_witness:
  "dict_get (next_stations (heap (run loop_calls SubwayNetwork_init) ! 0)) MAIN = Some 1
   \<and> dict_get (prev_stations (heap (run loop_calls SubwayNetwork_init) ! 1)) MAIN = Some 0"
proof -
  have l: "length (heap (run loop_calls SubwayNetwork_init)) = 3"
    using loop_calls_eval [THEN arg_cong, of length] by simp
  have "(next_stations (heap (run loop_calls SubwayNetwork_init) ! 0),
         prev_stations (heap (run loop_calls SubwayNetwork_init) ! 0))
        = ([(MAIN, 1), (LOOP, 2), (EXPRESS_TRACK, 2)], [])"
    using loop_calls_eval [THEN arg_cong, of "\<lambda>xs. xs ! 0"] l by simp
  then have n: "dict_get (next_stations (heap (run loop_calls SubwayNetwork_init) ! 0)) MAIN
      = Some 1"
    by simp
  have a: "(0::nat) < length (heap (run loop_calls SubwayNetwork_init))" by (simp add: l)
  show ?thesis
    using main_branch_links_consistent [OF _ a n] n by simp
qed

text \<open>
  For the kinds EXPRESS and LOOP the claim fails: the prev map keeps one predecessor per
  kind, so a second loop connection, or a second express line, into a station overwrites
  the entry that the first one set, while the first station still points at it.
\<close>

theorem loop_express_links_counterexample:
  "dict_get (next_stations (heap (run loop_calls SubwayNetwork_init) ! 0)) LOOP = Some 2
   \<and> dict_get (prev_stations (heap (run loop_calls SubwayNetwork_init) ! 2)) LOOP = Some 1
   \<and> dict_get (next_stations (heap (run loop_calls SubwayNetwork_init) ! 0)) EXPRESS_TRACK = Some 2
   \<and> dict_get (prev_stations (heap (run loop_calls SubwayNetwork_init) ! 2)) EXPRESS_TRACK
       = Some 1"
proof -
  have l: "length (heap (run loop_calls SubwayNetwork_init)) = 3"
    using loop_calls_eval [THEN arg_cong, of length] by simp
  have "(next_stations (heap (run loop_calls SubwayNetwork_init) ! 0),
         prev_stations (heap (run loop_calls SubwayNetwork_init) ! 0))
        = ([(MAIN, 1), (LOOP, 2), (EXPRESS_TRACK, 2)], [])"
    using loop_calls_eval [THEN arg_cong, of "\<lambda>xs. xs ! 0"] l by simp
  moreover have "(next_stations (heap (run loop_calls SubwayNetwork_init) ! 2),
         prev_stations (heap (run loop_calls SubwayNetwork_init) ! 2))
        = ([], [(MAIN, 1), (LOOP, 1), (EXPRESS_TRACK, 1)])"
    using loop_calls_eval [THEN arg_cong, of "\<lambda>xs. xs ! 2"] l by simp
  ultimately show ?thesis by simp
qed


section \<open>Insertion round trip\<close>

subsection \<open>Generated identifiers\<close>

lemma digit_inj: "d < 10 \<Longrightarrow> d' < 10 \<Longrightarrow> digit d = digit d' \<Longrightarrow> d = d'"
  unfolding digit_def
  by (subst (asm) nth_eq_iff_index_eq) simp_all

lemma digit_not_underscore: "d < 10 \<Longrightarrow> digit d \<noteq> CHR ''_''"
proof -
  assume "d < 10"
  then have "digit d \<in> set ''0123456789''" unfolding digit_def by (intro nth_mem) simp
  then show ?thesis by auto
qed

lemma str_nat_not_Nil: "str_nat n \<noteq> []"
  by (subst str_nat.simps) simp

lemma str_nat_no_underscore: "CHR ''_'' \<notin> set (str_nat n)"
proof (induction n rule: str_nat.induct)
  case (1 n)
  show ?case
  proof (cases "n < 10")
    case True
    then show ?thesis using digit_not_underscore [of n] by (subst str_nat.simps) auto
  next
    case False
    then show ?thesis
      using 1 digit_not_underscore [of "n mod 10"] by (subst str_nat.simps) auto
  qed
qed

lemma str_nat_inj: "str_nat n = str_nat m \<Longrightarrow> n = m"
proof (induction n arbitrary: m rule: str_nat.induct)
  case (1 n)
  show ?case
  proof (cases "n < 10")
    case n: True
    show ?thesis
    proof (cases "m < 10")
      case True
      with n "1.prems" show ?thesis
        by (simp add: str_nat.simps [of n] str_nat.simps [of m] digit_inj)
    next
      case False
      with n "1.prems" show ?thesis
        using str_nat_not_Nil [of "m div 10"]
        by (simp add: str_nat.simps [of n] str_nat.simps [of m])
    qed
  next
    case n: False
    show ?thesis
    proof (cases "m < 10")
      case True
      with n "1.prems" show ?thesis
        using str_nat_not_Nil [of "n div 10"]
        by (simp add: str_nat.simps [of n] str_nat.simps [of m])
    next
      case False
      with n "1.prems" have e: "str_nat (n div 10) = str_nat (m div 10)"
        "digit (n mod 10) = digit (m mod 10)"
        by (simp_all add: str_nat.simps [of n] str_nat.simps [of m])
      from "1.IH" [OF n e(1)] have "n div 10 = m div 10" .
      moreover from e(2) have "n mod 10 = m mod 10" by (intro digit_inj) simp_all
      ultimately show ?thesis by (metis div_mult_mod_eq)
    qed
  qed
qed

lemma first_split_unique:
  "c \<notin> set as \<Longrightarrow> c \<notin> set as' \<Longrightarrow> as @ c # bs = as' @ c # bs' \<Longrightarrow> as = as' \<and> bs = bs'"
proof (induction as arbitrary: as')
  case Nil
  then show ?case by (cases as') auto
next
  case (Cons a as)
  then show ?case by (cases as') auto
qed

lemma auto_id_inj:
  assumes "x @ ''_auto_'' @ str_nat n = y @ ''_auto_'' @ str_nat m"
  shows "x = y \<and> n = m"
proof -
  from assms have "rev (x @ ''_auto_'' @ str_nat n) = rev (y @ ''_auto_'' @ str_nat m)"
    by simp
  then have "rev (str_nat n) @ CHR ''_'' # (''otua_'' @ rev x)
      = rev (str_nat m) @ CHR ''_'' # (''otua_'' @ rev y)"
    by simp
  then have "rev (str_nat n) = rev (str_nat m) \<and> ''otua_'' @ rev x = ''otua_'' @ rev y"
    by (intro first_split_unique [where c = "CHR ''_''"]) (simp_all add: str_nat_no_underscore)
  then show ?thesis by (simp add: str_nat_inj)
qed

lemma auto_id_not_main_0: "x @ ''_auto_'' @ str_nat n \<noteq> ''main_0''"
proof
  assume "x @ ''_auto_'' @ str_nat n = ''main_0''"
  then have "length (x @ ''_auto_'' @ str_nat n) = length ''main_0''" by simp
  then show False using str_nat_not_Nil [of n] by (cases "str_nat n") simp_all
qed

lemma auto_id_not_station: "x @ ''_auto_'' @ str_nat n \<noteq> y @ ''_station_'' @ str_nat m"
proof
  assume "x @ ''_auto_'' @ str_nat n = y @ ''_station_'' @ str_nat m"
  then have "rev (x @ ''_auto_'' @ str_nat n) = rev (y @ ''_station_'' @ str_nat m)"
    by simp
  then have "rev (str_nat n) @ CHR ''_'' # (''otua_'' @ rev x)
      = rev (str_nat m) @ CHR ''_'' # (''noitats_'' @ rev y)"
    by simp
  then have "rev (str_nat n) = rev (str_nat m) \<and> ''otua_'' @ rev x = ''noitats_'' @ rev y"
    by (intro first_split_unique [where c = "CHR ''_''"]) (simp_all add: str_nat_no_underscore)
  then show False by simp
qed

subsection \<open>The choice of the target track\<close>

lemma min_load_loop_target: "tgt \<noteq> None \<Longrightarrow> min_load_loop ts m tgt \<noteq> None"
  by (induction ts m tgt rule: min_load_loop.induct) (auto simp: Let_def)

lemma min_load_loop_None:
  "min_load_loop ts None None = None \<longleftrightarrow>
   (\<forall>(k, t) \<in> set ts. track_type t \<noteq> MAIN \<and> track_type t \<noteq> BRANCH)"
proof (induction ts)
  case Nil
  then show ?case by simp
next
  case (Cons x ts)
  obtain k t where x: "x = (k, t)" by (cases x)
  show ?case
    using Cons min_load_loop_target [of "Some (k, t)" ts "Some (length (track_stations t))"]
    by (auto simp: x Let_def)
qed

lemma choose_target_None_iff:
  "choose_target net None = None \<longleftrightarrow>
   (\<forall>(k, t) \<in> set (tracks net). track_type t \<noteq> MAIN \<and> track_type t \<noteq> BRANCH)"
  by (simp add: choose_target_def min_load_loop_None)

lemma choose_target_type:
  "choose_target net None = Some (k, t) \<Longrightarrow> track_type t = MAIN \<or> track_type t = BRANCH"
  by (auto simp: choose_target_def dest: min_load_loop_mem)

lemma insert_with_target:
  assumes "choose_target net None = Some (k, t)"
  shows "\<exists>net'. insert_data_optimally d None net
            = (Inr (track_id t @ ''_auto_'' @ str_nat (length (track_stations t))), net') \<and>
          length (heap net') = Suc (length (heap net)) \<and>
          (\<forall>a < length (heap net). data (heap net' ! a) = data (heap net ! a)) \<and>
          data (heap net' ! length (heap net)) = d \<and>
          stations net' = dict_set (track_id t @ ''_auto_'' @ str_nat (length (track_stations t)))
                            (length (heap net)) (stations net) \<and>
          tracks net' = dict_set k (t\<lparr>track_stations := track_stations t @ [length (heap net)]\<rparr>)
                          (tracks net) \<and>
          total_data_items net' = total_data_items net + 1"
  using assms
  by (simp add: insert_data_optimally_def Let_def split_beta heap_modify_nth nth_append
      SubwayStation_init_def)

lemma insert_fallback:
  assumes "choose_target net None = None"
  shows "\<exists>net'. insert_data_optimally d None net = (Inr ''main_0'', net') \<and>
          length (heap net') = Suc (length (heap net)) \<and>
          (\<forall>a < length (heap net). data (heap net' ! a) = data (heap net ! a)) \<and>
          data (heap net' ! length (heap net)) = d \<and>
          stations net' = dict_set ''main_0_station_0'' (length (heap net)) (stations net) \<and>
          tracks net' = dict_set ''main_0''
                          \<lparr>track_id = ''main_0'', track_type = MAIN, color = ''blue'',
                           track_stations = [length (heap net)], express_stops = {}\<rparr>
                          (tracks net) \<and>
          total_data_items net' = total_data_items net + 1"
  using assms
  by (simp add: insert_data_optimally_def create_main_line_def main_line_step_def Let_def
      split_beta heap_modify_nth nth_append SubwayStation_init_def SubwayTrack_init_def
      str_nat.simps digit_def)


lemma auto_ids_dict_set:
  assumes "distinct (map fst (tracks net))" and "(k, t) \<in> set (tracks net)"
    and "track_id t' = track_id t"
    and "length (track_stations t) \<le> length (track_stations t')"
    and "tracks net' = dict_set k t' (tracks net)"
  shows "auto_ids net \<subseteq> auto_ids net'"
proof
  fix s assume "s \<in> auto_ids net"
  then obtain k0 t0 n where s: "s = track_id t0 @ ''_auto_'' @ str_nat n"
    "(k0, t0) \<in> set (tracks net)" "n < length (track_stations t0)"
    by (auto simp: auto_ids_def)
  show "s \<in> auto_ids net'"
  proof (cases "k0 = k")
    case True
    with s(2) assms(1,2) have "t0 = t" by (auto dest: eq_key_imp_eq_value)
    then have "s = track_id t' @ ''_auto_'' @ str_nat n" "n < length (track_stations t')"
      using s assms(3,4) by simp_all
    moreover have "(k, t') \<in> set (tracks net')" by (simp add: assms(5) dict_set_mem)
    ultimately show ?thesis unfolding auto_ids_def by blast
  next
    case False
    then have "(k0, t0) \<in> set (tracks net')"
      using s(2) by (simp add: assms(5) dict_set_other)
    with s show ?thesis unfolding auto_ids_def by blast
  qed
qed

lemma insert_step:
  assumes "wf_net net" and "choose_target net None \<noteq> None"
  shows "\<exists>sid net'. insert_data_optimally d None net = (Inr sid, net') \<and>
          wf_net net' \<and> choose_target net' None \<noteq> None \<and>
          sid \<notin> blocked net \<and> sid \<in> blocked net' \<and> blocked net \<subseteq> blocked net' \<and>
          length (heap net') = Suc (length (heap net)) \<and>
          (\<forall>a < length (heap net). data (heap net' ! a) = data (heap net ! a)) \<and>
          data (heap net' ! length (heap net)) = d \<and>
          stations net' = dict_set sid (length (heap net)) (stations net) \<and>
          total_data_items net' = total_data_items net + 1"
proof -
  from assms(2) obtain k t where ct: "choose_target net None = Some (k, t)" by auto
  define sid where "sid = track_id t @ ''_auto_'' @ str_nat (length (track_stations t))"
  define t' where "t' = t\<lparr>track_stations := track_stations t @ [length (heap net)]\<rparr>"
  from insert_with_target [OF ct, of d, folded sid_def t'_def] obtain net' where
    r: "insert_data_optimally d None net = (Inr sid, net')" and
    l: "length (heap net') = Suc (length (heap net))" and
    dp: "\<forall>a < length (heap net). data (heap net' ! a) = data (heap net ! a)" and
    dn: "data (heap net' ! length (heap net)) = d" and
    st: "stations net' = dict_set sid (length (heap net)) (stations net)" and
    tr: "tracks net' = dict_set k t' (tracks net)" and
    tot: "total_data_items net' = total_data_items net + 1"
    by (elim exE conjE) (rule that; assumption)
  have mem: "(k, t) \<in> set (tracks net)" using ct by (rule choose_target_mem)
  have dk: "distinct (map fst (tracks net))" using assms(1) by (simp add: wf_net_def)
  have ids: "\<And>k0 t0. (k0, t0) \<in> set (tracks net) \<Longrightarrow> track_id t0 = k0"
    using assms(1) by (auto simp: wf_net_def)
  have w: "wf_net net'"
    using wf_insert_data_optimally [OF assms(1), of d None] r by simp
  have mem': "(k, t') \<in> set (tracks net')" by (simp add: tr dict_set_mem)
  have "track_type t' = MAIN \<or> track_type t' = BRANCH"
    using choose_target_type [OF ct] by (simp add: t'_def)
  with mem' have tg: "choose_target net' None \<noteq> None"
    by (auto simp: choose_target_None_iff)
  have fresh: "sid \<notin> auto_ids net"
  proof
    assume "sid \<in> auto_ids net"
    then obtain k0 t0 n where s: "sid = track_id t0 @ ''_auto_'' @ str_nat n"
      "(k0, t0) \<in> set (tracks net)" "n < length (track_stations t0)"
      by (auto simp: auto_ids_def)
    from s(1) have e: "track_id t = track_id t0" "length (track_stations t) = n"
      using auto_id_inj [of "track_id t" "length (track_stations t)" "track_id t0" n]
      by (simp_all add: sid_def)
    with ids [OF mem] ids [OF s(2)] have "k = k0" by simp
    with mem s(2) dk have "t = t0" by (auto dest: eq_key_imp_eq_value)
    with e(2) s(3) show False by simp
  qed
  then have nb: "sid \<notin> blocked net" by (auto simp: blocked_def sid_def)
  have "sid = track_id t' @ ''_auto_'' @ str_nat (length (track_stations t))"
    "length (track_stations t) < length (track_stations t')"
    by (simp_all add: sid_def t'_def)
  with mem' have "sid \<in> auto_ids net'"
    unfolding auto_ids_def by blast
  then have ib: "sid \<in> blocked net'" by (simp add: blocked_def)
  have "auto_ids net \<subseteq> auto_ids net'"
    using dk mem _ _ tr by (rule auto_ids_dict_set) (simp_all add: t'_def)
  then have sub: "blocked net \<subseteq> blocked net'" by (auto simp: blocked_def)
  show ?thesis
    using r w tg nb ib sub l dp dn st tot by blast
qed


lemma insert_all_Cons:
  assumes "wf_net net" and "choose_target net None \<noteq> None"
    and "insert_all (d # ds) net = (rs, net')"
  obtains sid net1 rs1 where
    "rs = Inr sid # rs1" "insert_all ds net1 = (rs1, net')"
    "wf_net net1" "choose_target net1 None \<noteq> None"
    "sid \<notin> blocked net" "sid \<in> blocked net1" "blocked net \<subseteq> blocked net1"
    "length (heap net1) = Suc (length (heap net))"
    "\<forall>a < length (heap net). data (heap net1 ! a) = data (heap net ! a)"
    "data (heap net1 ! length (heap net)) = d"
    "stations net1 = dict_set sid (length (heap net)) (stations net)"
    "total_data_items net1 = total_data_items net + 1"
proof -
  from insert_step [OF assms(1,2), of d] obtain sid net1 where
    s: "insert_data_optimally d None net = (Inr sid, net1)"
    "wf_net net1" "choose_target net1 None \<noteq> None"
    "sid \<notin> blocked net" "sid \<in> blocked net1" "blocked net \<subseteq> blocked net1"
    "length (heap net1) = Suc (length (heap net))"
    "\<forall>a < length (heap net). data (heap net1 ! a) = data (heap net ! a)"
    "data (heap net1 ! length (heap net)) = d"
    "stations net1 = dict_set sid (length (heap net)) (stations net)"
    "total_data_items net1 = total_data_items net + 1"
    by (elim exE conjE) (rule that; assumption)
  obtain rs1 net2 where t: "insert_all ds net1 = (rs1, net2)" by (metis prod.exhaust)
  with assms(3) s(1) have "rs = Inr sid # rs1" "net2 = net'" by simp_all
  with t s show ?thesis by (intro that [of sid rs1 net1]) simp_all
qed

lemma insert_all_basic:
  assumes "wf_net net" and "choose_target net None \<noteq> None" and "insert_all ds net = (rs, net')"
  shows "wf_net net' \<and> length rs = length ds \<and>
         length (heap net') = length (heap net) + length ds \<and>
         total_data_items net' = total_data_items net + int (length ds) \<and>
         blocked net \<subseteq> blocked net'"
  using assms
proof (induction ds arbitrary: net rs)
  case Nil
  then show ?case by simp
next
  case (Cons d ds)
  from Cons.prems obtain sid net1 rs1 where
    s: "rs = Inr sid # rs1" "insert_all ds net1 = (rs1, net')"
    "wf_net net1" "choose_target net1 None \<noteq> None"
    "blocked net \<subseteq> blocked net1"
    "length (heap net1) = Suc (length (heap net))"
    "total_data_items net1 = total_data_items net + 1"
    by (rule insert_all_Cons)
  from Cons.IH [OF s(3,4,2)] s(1,5,6,7) show ?case by auto
qed

lemma insert_all_data:
  assumes "wf_net net" and "choose_target net None \<noteq> None" and "insert_all ds net = (rs, net')"
  shows "(\<forall>a < length (heap net). data (heap net' ! a) = data (heap net ! a)) \<and>
         (\<forall>i < length ds. data (heap net' ! (length (heap net) + i)) = ds ! i)"
  using assms
proof (induction ds arbitrary: net rs)
  case Nil
  then show ?case by simp
next
  case (Cons d ds)
  from Cons.prems obtain sid net1 rs1 where
    s: "insert_all ds net1 = (rs1, net')"
    "wf_net net1" "choose_target net1 None \<noteq> None"
    "length (heap net1) = Suc (length (heap net))"
    "\<forall>a < length (heap net). data (heap net1 ! a) = data (heap net ! a)"
    "data (heap net1 ! length (heap net)) = d"
    by (rule insert_all_Cons)
  note ih = Cons.IH [OF s(2,3,1)]
  have old: "\<forall>a < length (heap net). data (heap net' ! a) = data (heap net ! a)"
    using ih s(4,5) by simp
  have new: "\<forall>i < length (d # ds). data (heap net' ! (length (heap net) + i)) = (d # ds) ! i"
  proof (intro allI impI)
    fix i assume i: "i < length (d # ds)"
    show "data (heap net' ! (length (heap net) + i)) = (d # ds) ! i"
    proof (cases i)
      case 0
      then show ?thesis using ih s(4,6) by simp
    next
      case (Suc j)
      with i have "j < length ds" by simp
      with ih have "data (heap net' ! (length (heap net1) + j)) = ds ! j" by blast
      then show ?thesis using Suc s(4) by simp
    qed
  qed
  show ?case using old new by blast
qed

lemma insert_all_protected:
  assumes "wf_net net" and "choose_target net None \<noteq> None" and "insert_all ds net = (rs, net')"
    and "sid \<in> blocked net" and "dict_get (stations net) sid = Some a"
  shows "dict_get (stations net') sid = Some a"
  using assms
proof (induction ds arbitrary: net rs)
  case Nil
  then show ?case by simp
next
  case (Cons d ds)
  from Cons.prems(1-3) obtain sid1 net1 rs1 where
    s: "insert_all ds net1 = (rs1, net')"
    "wf_net net1" "choose_target net1 None \<noteq> None"
    "sid1 \<notin> blocked net" "blocked net \<subseteq> blocked net1"
    "stations net1 = dict_set sid1 (length (heap net)) (stations net)"
    by (rule insert_all_Cons)
  from s(4) Cons.prems(4) have "sid \<noteq> sid1" by auto
  then have "dict_get (stations net1) sid = Some a"
    using Cons.prems(5) by (simp add: s(6))
  moreover have "sid \<in> blocked net1" using Cons.prems(4) s(5) by auto
  ultimately show ?case by (intro Cons.IH [OF s(2,3,1)])
qed

lemma insert_all_returned:
  assumes "wf_net net" and "choose_target net None \<noteq> None" and "insert_all ds net = (rs, net')"
  shows "\<forall>i < length ds. \<exists>sid. rs ! i = Inr sid \<and> sid \<notin> blocked net \<and>
            dict_get (stations net') sid = Some (length (heap net) + i)"
  using assms
proof (induction ds arbitrary: net rs)
  case Nil
  then show ?case by simp
next
  case (Cons d ds)
  from Cons.prems obtain sid1 net1 rs1 where
    s: "rs = Inr sid1 # rs1" "insert_all ds net1 = (rs1, net')"
    "wf_net net1" "choose_target net1 None \<noteq> None"
    "sid1 \<notin> blocked net" "sid1 \<in> blocked net1" "blocked net \<subseteq> blocked net1"
    "length (heap net1) = Suc (length (heap net))"
    "stations net1 = dict_set sid1 (length (heap net)) (stations net)"
    by (rule insert_all_Cons)
  note ih = Cons.IH [OF s(3,4,2)]
  have first: "dict_get (stations net') sid1 = Some (length (heap net))"
    using s(9) by (intro insert_all_protected [OF s(3,4,2,6)]) simp
  show ?case
  proof (intro allI impI)
    fix i assume i: "i < length (d # ds)"
    show "\<exists>sid. rs ! i = Inr sid \<and> sid \<notin> blocked net \<and>
            dict_get (stations net') sid = Some (length (heap net) + i)"
    proof (cases i)
      case 0
      then show ?thesis using first s(1,5) by simp
    next
      case (Suc j)
      with i have "j < length ds" by simp
      with ih obtain sid where "rs1 ! j = Inr sid" "sid \<notin> blocked net1"
        "dict_get (stations net') sid = Some (length (heap net1) + j)"
        by blast
      then show ?thesis using Suc s(1,7,8) by auto
    qed
  qed
qed

lemma insert_all_distinct:
  assumes "wf_net net" and "choose_target net None \<noteq> None" and "insert_all ds net = (rs, net')"
  shows "distinct rs"
  using assms
proof (induction ds arbitrary: net rs)
  case Nil
  then show ?case by simp
next
  case (Cons d ds)
  from Cons.prems obtain sid1 net1 rs1 where
    s: "rs = Inr sid1 # rs1" "insert_all ds net1 = (rs1, net')"
    "wf_net net1" "choose_target net1 None \<noteq> None" "sid1 \<in> blocked net1"
    by (rule insert_all_Cons)
  have len: "length rs1 = length ds"
    using insert_all_basic [OF s(3,4,2)] by simp
  have "Inr sid1 \<notin> set rs1"
  proof
    assume "Inr sid1 \<in> set rs1"
    then obtain j where j: "j < length rs1" "rs1 ! j = Inr sid1"
      by (auto simp: in_set_conv_nth)
    with insert_all_returned [OF s(3,4,2)] len have "sid1 \<notin> blocked net1" by auto
    with s(5) show False by simp
  qed
  with Cons.IH [OF s(3,4,2)] s(1) show ?case by simp
qed

lemma insert_all_registered:
  assumes "wf_net net" and "choose_target net None \<noteq> None" and "insert_all ds net = (rs, net')"
    and "(k, a) \<in> set (stations net')"
  shows "(k, a) \<in> set (stations net) \<or>
         (length (heap net) \<le> a \<and> a < length (heap net) + length ds)"
  using assms
proof (induction ds arbitrary: net rs)
  case Nil
  then show ?case by simp
next
  case (Cons d ds)
  from Cons.prems(1-3) obtain sid1 net1 rs1 where
    s: "insert_all ds net1 = (rs1, net')"
    "wf_net net1" "choose_target net1 None \<noteq> None"
    "length (heap net1) = Suc (length (heap net))"
    "stations net1 = dict_set sid1 (length (heap net)) (stations net)"
    by (rule insert_all_Cons)
  from Cons.IH [OF s(2,3,1) Cons.prems(4)]
  show ?case
    using set_dict_set_subset [of sid1 "length (heap net)" "stations net"] s(4,5) by auto
qed

lemma main_0_blocked: "''main_0'' \<in> blocked net" "''main_0_station_0'' \<in> blocked net"
proof -
  show "''main_0'' \<in> blocked net"
    using auto_id_not_main_0 by (auto simp: blocked_def) metis
  have "str_nat 0 = ''0''" by (simp add: str_nat.simps digit_def)
  then have "\<And>x n. x @ ''_auto_'' @ str_nat n \<noteq> ''main_0_station_0''"
    using auto_id_not_station [of _ _ "''main_0''" 0] by simp
  then show "''main_0_station_0'' \<in> blocked net"
    by (auto simp: blocked_def) metis
qed

lemma insert_all_summary:
  assumes "wf_net net" and "insert_all ps net = (rs, net')"
  shows "wf_net net' \<and>
     total_data_items net' = total_data_items net + int (length ps) \<and>
     length rs = length ps \<and> distinct rs \<and>
     (\<forall>a < length (heap net). data (heap net' ! a) = data (heap net ! a)) \<and>
     (\<forall>i < length ps. data (heap net' ! (length (heap net) + i)) = ps ! i) \<and>
     (\<forall>i < length ps. \<exists>sid.
         dict_get (stations net') sid = Some (length (heap net) + i) \<and>
         (rs ! i = Inr sid \<or>
          (i = 0 \<and> choose_target net None = None \<and> rs ! i = Inr ''main_0'' \<and>
           sid = ''main_0_station_0''))) \<and>
     (\<forall>(k, a) \<in> set (stations net').
         (k, a) \<in> set (stations net) \<or>
         (length (heap net) \<le> a \<and> a < length (heap net) + length ps))"
proof (cases "choose_target net None = None")
  case False
  note b = insert_all_basic [OF assms(1) False assms(2)]
  note d = insert_all_data [OF assms(1) False assms(2)]
  note r = insert_all_returned [OF assms(1) False assms(2)]
  note di = insert_all_distinct [OF assms(1) False assms(2)]
  note g = insert_all_registered [OF assms(1) False assms(2)]
  have ret: "\<forall>i < length ps. \<exists>sid.
         dict_get (stations net') sid = Some (length (heap net) + i) \<and>
         (rs ! i = Inr sid \<or>
          (i = 0 \<and> choose_target net None = None \<and> rs ! i = Inr ''main_0'' \<and>
           sid = ''main_0_station_0''))"
    using r by blast
  have reg: "\<forall>(k, a) \<in> set (stations net').
         (k, a) \<in> set (stations net) \<or>
         (length (heap net) \<le> a \<and> a < length (heap net) + length ps)"
    using g by blast
  show ?thesis using b d di ret reg by blast
next
  case True
  show ?thesis
  proof (cases ps)
    case Nil
    with assms show ?thesis by auto
  next
    case (Cons p ds)
    from insert_fallback [OF True, of p] obtain net1 where
      f: "insert_data_optimally p None net = (Inr ''main_0'', net1)"
      "length (heap net1) = Suc (length (heap net))"
      "\<forall>a < length (heap net). data (heap net1 ! a) = data (heap net ! a)"
      "data (heap net1 ! length (heap net)) = p"
      "stations net1 = dict_set ''main_0_station_0'' (length (heap net)) (stations net)"
      "tracks net1 = dict_set ''main_0''
                          \<lparr>track_id = ''main_0'', track_type = MAIN, color = ''blue'',
                           track_stations = [length (heap net)], express_stops = {}\<rparr>
                          (tracks net)"
      "total_data_items net1 = total_data_items net + 1"
      by (elim exE conjE) (rule that; assumption)
    obtain rs1 net2 where t: "insert_all ds net1 = (rs1, net2)" by (metis prod.exhaust)
    with assms(2) f(1) Cons have rs: "rs = Inr ''main_0'' # rs1" and n2: "net2 = net'"
      by simp_all
    have t': "insert_all ds net1 = (rs1, net')" using t n2 by simp
    have w1: "wf_net net1"
      using wf_insert_data_optimally [OF assms(1), of p None] f(1) by simp
    have "(''main_0'', \<lparr>track_id = ''main_0'', track_type = MAIN, color = ''blue'',
                           track_stations = [length (heap net)], express_stops = {}\<rparr>)
          \<in> set (tracks net1)"
      by (simp add: f(6) dict_set_mem)
    then have c1: "choose_target net1 None \<noteq> None"
      unfolding choose_target_None_iff by fastforce
    note b = insert_all_basic [OF w1 c1 t']
    note d = insert_all_data [OF w1 c1 t']
    note r = insert_all_returned [OF w1 c1 t']
    note di = insert_all_distinct [OF w1 c1 t']
    note g = insert_all_registered [OF w1 c1 t']
    have tot: "total_data_items net' = total_data_items net + int (length ps)"
      using b f(7) Cons by simp
    have len: "length rs = length ps" using b rs Cons by simp
    have "Inr ''main_0'' \<notin> set rs1"
    proof
      assume "Inr ''main_0'' \<in> set rs1"
      then obtain j where j: "j < length rs1" "rs1 ! j = Inr ''main_0''"
        by (auto simp: in_set_conv_nth)
      with r b have "''main_0'' \<notin> blocked net1" by auto
      then show False using main_0_blocked(1) by blast
    qed
    then have dist: "distinct rs" using di rs by simp
    have old: "\<forall>a < length (heap net). data (heap net' ! a) = data (heap net ! a)"
      using d f(2,3) by simp
    have first: "dict_get (stations net') ''main_0_station_0'' = Some (length (heap net))"
      by (intro insert_all_protected [OF w1 c1 t' main_0_blocked(2)]) (simp add: f(5))
    have new: "\<forall>i < length ps. data (heap net' ! (length (heap net) + i)) = ps ! i"
    proof (intro allI impI)
      fix i assume i: "i < length ps"
      show "data (heap net' ! (length (heap net) + i)) = ps ! i"
      proof (cases i)
        case 0
        then show ?thesis using d f(2,4) Cons by simp
      next
        case (Suc j)
        with i Cons have "j < length ds" by simp
        with d have "data (heap net' ! (length (heap net1) + j)) = ds ! j" by blast
        then show ?thesis using Suc f(2) Cons by simp
      qed
    qed
    have ret: "\<forall>i < length ps. \<exists>sid.
         dict_get (stations net') sid = Some (length (heap net) + i) \<and>
         (rs ! i = Inr sid \<or>
          (i = 0 \<and> choose_target net None = None \<and> rs ! i = Inr ''main_0'' \<and>
           sid = ''main_0_station_0''))"
    proof (intro allI impI)
      fix i assume i: "i < length ps"
      show "\<exists>sid. dict_get (stations net') sid = Some (length (heap net) + i) \<and>
         (rs ! i = Inr sid \<or>
          (i = 0 \<and> choose_target net None = None \<and> rs ! i = Inr ''main_0'' \<and>
           sid = ''main_0_station_0''))"
      proof (cases i)
        case 0
        then show ?thesis
          using first True rs by (intro exI [of _ "''main_0_station_0''"]) simp
      next
        case (Suc j)
        with i Cons have "j < length ds" by simp
        with r obtain sid where "rs1 ! j = Inr sid"
          "dict_get (stations net') sid = Some (length (heap net1) + j)"
          by blast
        then show ?thesis using Suc rs f(2) by auto
      qed
    qed
    have reg: "\<forall>(k, a) \<in> set (stations net').
         (k, a) \<in> set (stations net) \<or>
         (length (heap net) \<le> a \<and> a < length (heap net) + length ps)"
    proof -
      have "(k, a) \<in> set (stations net) \<or>
         (length (heap net) \<le> a \<and> a < length (heap net) + length ps)"
        if "(k, a) \<in> set (stations net')" for k a
        using g [OF that]
          set_dict_set_subset [of "''main_0_station_0''" "length (heap net)" "stations net"]
          f(2,5) Cons by auto
      then show ?thesis by blast
    qed
    show ?thesis using b tot len dist old new ret reg by blast
  qed
qed

end
